theory Spec2Isabelle
  imports Main "HOL-Library.AList"
begin

text \<open>
  A model of the file exchanger: the server of \<open>server.py\<close> with its two runtimes (the
  connection loops, the command dispatchers, the upload, download and listing handlers)
  and the upload operation of the client of \<open>client.py\<close>. Every function of the source
  that the properties below are about is a function here under the same name, without
  the leading underscore; the socket, the storage directory and the log are fields of
  the state the functions pass on.
\<close>

section \<open>Bytes and text\<close>

text \<open>
  A byte string (Python \<open>bytes\<close>) is a list of 8-bit characters. Protocol text (Python
  \<open>str\<close>) is ASCII, as the wire protocol is, and is carried by the same type: on ASCII
  \<open>encode\<close> and \<open>decode\<close> do not change the bytes. A line with a byte above 127 is outside
  the text model (Python would combine bytes into code points or raise), and \<open>decode\<close>
  answers \<open>None\<close> for it.
\<close>

type_synonym bytes = string

definition NL :: char where
  "NL = CHR 0x0A"

definition SENTINEL :: bytes where
  "SENTINEL = ''<END>'' @ [NL]"

definition is_ascii :: "char \<Rightarrow> bool" where
  "is_ascii c = ((of_char c :: nat) < 128)"

definition encode :: "string \<Rightarrow> bytes" where
  "encode s = s"

definition decode :: "bytes \<Rightarrow> string option" where
  "decode b = (if list_all is_ascii b then Some b else None)"

text \<open>\<open>str.isspace\<close> on ASCII: tab, line feed, vertical tab, form feed, carriage return,
  the four separators 0x1C..0x1F and the blank.\<close>

definition is_space :: "char \<Rightarrow> bool" where
  "is_space c = (let n = (of_char c :: nat) in (9 \<le> n \<and> n \<le> 13) \<or> (28 \<le> n \<and> n \<le> 32))"

text \<open>\<open>str.strip()\<close>\<close>

definition strip :: "string \<Rightarrow> string" where
  "strip s = rev (dropWhile is_space (rev (dropWhile is_space s)))"

text \<open>\<open>str.split()\<close> with no argument: maximal runs of non-blank characters.\<close>

fun split_acc :: "string \<Rightarrow> string \<Rightarrow> string list" where
  "split_acc cur [] = (if cur = [] then [] else [cur])"
| "split_acc cur (c # cs) =
     (if is_space c then (if cur = [] then split_acc [] cs else cur # split_acc [] cs)
      else split_acc (cur @ [c]) cs)"

definition split :: "string \<Rightarrow> string list" where
  "split s = split_acc [] s"

text \<open>\<open>str.upper()\<close> on ASCII.\<close>

definition upper_char :: "char \<Rightarrow> char" where
  "upper_char c =
     (case map_of (zip ''abcdefghijklmnopqrstuvwxyz'' ''ABCDEFGHIJKLMNOPQRSTUVWXYZ'') c of
        None \<Rightarrow> c
      | Some u \<Rightarrow> u)"

definition upper :: "string \<Rightarrow> string" where
  "upper s = map upper_char s"

text \<open>\<open>sep.join(xs)\<close>\<close>

fun join :: "string \<Rightarrow> string list \<Rightarrow> string" where
  "join sep [] = []"
| "join sep [x] = x"
| "join sep (x # y # ys) = x @ sep @ join sep (y # ys)"

text \<open>\<open>str(n)\<close> for a non-negative integer: its decimal digits.\<close>

definition digit_char :: "nat \<Rightarrow> char" where
  "digit_char d = ''0123456789'' ! d"

function str_nat :: "nat \<Rightarrow> string" where
  "str_nat n = (if n < 10 then [digit_char n] else str_nat (n div 10) @ [digit_char (n mod 10)])"
  by pat_completeness auto
termination
  by (relation "measure id") auto

declare str_nat.simps [simp del]

text \<open>\<open>int(s)\<close> on a string of decimal digits, as the client reads the size.\<close>

definition digit_val :: "char \<Rightarrow> nat" where
  "digit_val c = (case map_of (zip ''0123456789'' [0, 1, 2, 3, 4, 5, 6, 7, 8, 9]) c of
                    None \<Rightarrow> 0
                  | Some v \<Rightarrow> v)"

definition int_str :: "string \<Rightarrow> nat" where
  "int_str s = foldl (\<lambda>a c. 10 * a + digit_val c) 0 s"


text \<open>\<open>buf.split(sep, 1)\<close> when \<open>sep\<close> occurs in \<open>buf\<close>: the part before the first
  occurrence and the part after it; \<open>None\<close> when \<open>sep in buf\<close> is false.\<close>

fun split_once :: "bytes \<Rightarrow> bytes \<Rightarrow> (bytes \<times> bytes) option" where
  "split_once sep [] = (if sep = [] then Some ([], []) else None)"
| "split_once sep (x # xs) =
     (if take (length sep) (x # xs) = sep then Some ([], drop (length sep) (x # xs))
      else (case split_once sep xs of
              None \<Rightarrow> None
            | Some (a, b) \<Rightarrow> Some (x # a, b)))"

section \<open>Exceptions\<close>

datatype exn =
    FileNotFound string
  | ErrorDuringUpload exn
  | ErrorDuringDownload string
  | PeerDisconnected string
  | IndexError
  | IsADirectoryError string

text \<open>\<open>str(e)\<close>: an exception built from one argument prints as that argument.\<close>

fun str_exn :: "exn \<Rightarrow> string" where
  "str_exn (FileNotFound m) = m"
| "str_exn (ErrorDuringUpload e) = str_exn e"
| "str_exn (ErrorDuringDownload m) = m"
| "str_exn (PeerDisconnected m) = m"
| "str_exn IndexError = ''list index out of range''"
| "str_exn (IsADirectoryError p) = ''[Errno 21] Is a directory: '' @ [CHR 0x27] @ p @ [CHR 0x27]"

section \<open>Server state\<close>

text \<open>
  The storage directory is the list \<open>files\<close> of its immediate entries, each a regular
  file with its bytes or a sub-directory; entry names are ASCII, unique and plain (see
  \<open>plain_name\<close>). The order of the list is the order in which \<open>os.listdir\<close> reports
  the entries. The directory that holds the storage directory is the list \<open>outside\<close> of
  its immediate entries: the server joins the name it receives to the storage directory
  without any check, and a name that starts with \<open>../\<close> reaches these.

  A connection is seen from the server: \<open>inbound\<close> holds the segments the peer's bytes
  arrive in, in order, and the empty list is the closed stream; \<open>sent\<close> holds the frames
  handed to \<open>sendall\<close> (or \<open>write\<close> and \<open>drain\<close>), oldest first. Sending always succeeds:
  transport failures are not part of the model.
\<close>

datatype entry = File bytes | Dir

datatype level = INFO | ERROR

record conn =
  inbound :: "bytes list"
  sent :: "bytes list"
  files :: "(string \<times> entry) list"
  outside :: "(string \<times> entry) list"
  storage_dir :: string
  addr :: string
  log :: "(level \<times> string) list"
  closed :: bool

text \<open>What a call does: it returns, it raises (the state is the one reached when the
  exception left the call), or it leaves the model (\<open>Unmodelled\<close>).\<close>

datatype ('a, 's) outcome = Done 'a | Raised exn 's | Unmodelled

definition sendall :: "conn \<Rightarrow> bytes \<Rightarrow> conn" where
  "sendall s b = s\<lparr>sent := sent s @ [b]\<rparr>"

text \<open>\<open>logging.info(f"[{addr}] ...")\<close> and \<open>logging.error(f"[{addr}] ...")\<close>\<close>

definition info :: "conn \<Rightarrow> string \<Rightarrow> conn" where
  "info s m = s\<lparr>log := log s @ [(INFO, ''['' @ addr s @ ''] '' @ m)]\<rparr>"

definition error :: "conn \<Rightarrow> string \<Rightarrow> conn" where
  "error s m = s\<lparr>log := log s @ [(ERROR, ''['' @ addr s @ ''] '' @ m)]\<rparr>"

text \<open>
  \<open>recv(n)\<close> on the segments: at most \<open>n\<close> bytes of the first segment that has any, and
  the empty byte string when the stream has ended.
\<close>

fun recv_seg :: "nat \<Rightarrow> bytes list \<Rightarrow> bytes \<times> bytes list" where
  "recv_seg n [] = ([], [])"
| "recv_seg n (c # cs) =
     (if c = [] then recv_seg n cs
      else if length c \<le> n then (c, cs)
      else (take n c, drop n c # cs))"

definition recv :: "nat \<Rightarrow> conn \<Rightarrow> bytes \<times> conn" where
  "recv n s = (case recv_seg n (inbound s) of (data, rest) \<Rightarrow> (data, s\<lparr>inbound := rest\<rparr>))"

text \<open>
  The stream reader of the cooperative runtime, on the same segments: \<open>read(n)\<close> returns
  as \<open>recv(n)\<close> does; \<open>readline()\<close> returns the bytes up to and with the first line feed,
  or all that is left when the stream ends before one; \<open>at_eof()\<close> holds when nothing is
  left. Lines stay below the reader's length limit.
\<close>

definition read :: "nat \<Rightarrow> conn \<Rightarrow> bytes \<times> conn" where
  "read n s = (case recv_seg n (inbound s) of (data, rest) \<Rightarrow> (data, s\<lparr>inbound := rest\<rparr>))"

fun readline_seg :: "bytes list \<Rightarrow> bytes \<times> bytes list" where
  "readline_seg [] = ([], [])"
| "readline_seg (c # cs) =
     (case split_once [NL] c of
        Some (l, rest) \<Rightarrow> (l @ [NL], if rest = [] then cs else rest # cs)
      | None \<Rightarrow> (case readline_seg cs of (l, cs') \<Rightarrow> (c @ l, cs')))"

definition readline :: "conn \<Rightarrow> bytes \<times> conn" where
  "readline s = (case readline_seg (inbound s) of (data, rest) \<Rightarrow> (data, s\<lparr>inbound := rest\<rparr>))"

definition at_eof :: "conn \<Rightarrow> bool" where
  "at_eof s = (concat (inbound s) = [])"

text \<open>\<open>os.path.join(storage_dir, filename)\<close>\<close>

definition path_join :: "string \<Rightarrow> string \<Rightarrow> string" where
  "path_join a b =
     (if b \<noteq> [] \<and> hd b = CHR ''/'' then b
      else if a = [] \<or> last a = CHR ''/'' then a @ b
      else a @ ''/'' @ b)"

text \<open>
  Where \<open>os.path.join(storage_dir, filename)\<close> leads. A plain name (not empty, not \<open>.\<close>
  or \<open>..\<close>, without \<open>/\<close> and without a zero byte) is the entry of that name in the storage
  directory, present or not, and so is a name that is an entry; \<open>./\<close> before a plain name
  changes nothing; \<open>../\<close> before a plain name is the entry of that name in the directory
  above. Every other name (an absolute path, a path through a sub-directory, a longer
  chain of dots) is outside the model, and the handlers answer \<open>Unmodelled\<close> for it.
\<close>

datatype place = Inside string | Outside string

definition plain_name :: "string \<Rightarrow> bool" where
  "plain_name n =
     (n \<noteq> [] \<and> n \<noteq> ''.'' \<and> n \<noteq> ''..''
      \<and> list_all (\<lambda>c. c \<noteq> CHR ''/'' \<and> c \<noteq> CHR 0x00) n)"

definition locate :: "conn \<Rightarrow> string \<Rightarrow> place option" where
  "locate s name =
     (if map_of (files s) name \<noteq> None \<or> plain_name name then Some (Inside name)
      else if take 2 name = ''./'' \<and> plain_name (drop 2 name) then Some (Inside (drop 2 name))
      else if take 3 name = ''../'' \<and> plain_name (drop 3 name) then Some (Outside (drop 3 name))
      else None)"

definition entry_at :: "conn \<Rightarrow> place \<Rightarrow> entry option" where
  "entry_at s p = (case p of Inside n \<Rightarrow> map_of (files s) n | Outside n \<Rightarrow> map_of (outside s) n)"

definition put_entry :: "conn \<Rightarrow> place \<Rightarrow> entry \<Rightarrow> conn" where
  "put_entry s p e =
     (case p of
        Inside n \<Rightarrow> s\<lparr>files := AList.update n e (files s)\<rparr>
      | Outside n \<Rightarrow> s\<lparr>outside := AList.update n e (outside s)\<rparr>)"

text \<open>\<open>os.path.isfile(path)\<close>, the bytes of the file at \<open>path\<close> and
  \<open>os.path.getsize(path)\<close>.\<close>

definition isfile :: "conn \<Rightarrow> place \<Rightarrow> bool" where
  "isfile s p = (case entry_at s p of Some (File d) \<Rightarrow> True | _ \<Rightarrow> False)"

definition file_bytes :: "conn \<Rightarrow> place \<Rightarrow> bytes" where
  "file_bytes s p = (case entry_at s p of Some (File d) \<Rightarrow> d | _ \<Rightarrow> [])"

definition getsize :: "conn \<Rightarrow> place \<Rightarrow> nat" where
  "getsize s p = length (file_bytes s p)"

definition listdir :: "conn \<Rightarrow> string list" where
  "listdir s = map fst (files s)"

text \<open>\<open>open(path, "wb")\<close> on a path that is not a directory creates the file or empties
  it; \<open>f.write(data)\<close> adds to its end.\<close>

definition open_wb :: "conn \<Rightarrow> place \<Rightarrow> conn" where
  "open_wb s p = put_entry s p (File [])"

definition fwrite :: "conn \<Rightarrow> place \<Rightarrow> bytes \<Rightarrow> conn" where
  "fwrite s p data = put_entry s p (File (file_bytes s p @ data))"

section \<open>Download handler\<close>

text \<open>The loop \<open>chunk = f.read(4096); if not chunk: break; peer.sendall(chunk)\<close> over
  the bytes of the file not yet read.\<close>

function send_file :: "bytes \<Rightarrow> conn \<Rightarrow> conn" where
  "send_file rest s =
     (let chunk = take 4096 rest in
      if chunk = [] then s else send_file (drop 4096 rest) (sendall s chunk))"
  by pat_completeness auto
termination
  by (relation "measure (\<lambda>(rest, s). length rest)") auto

declare send_file.simps [simp del]

definition cmd_get_file :: "conn \<Rightarrow> string \<Rightarrow> (conn, conn) outcome" where
  "cmd_get_file s filename =
     (case locate s filename of
        None \<Rightarrow> Unmodelled
      | Some path \<Rightarrow>
          if \<not> isfile s path
          then Done (sendall s (encode (''ERROR FileNotFound '' @ filename @ [NL])))
          else
            let size = getsize s path;
                s1 = sendall s (encode (''READY '' @ str_nat size @ [NL]));
                s2 = send_file (file_bytes s1 path) s1;
                s3 = sendall s2 SENTINEL
            in Done (info s3 (''File sent: '' @ filename)))"

definition cmd_get_file_async :: "conn \<Rightarrow> string \<Rightarrow> (conn, conn) outcome" where
  "cmd_get_file_async s filename =
     (case locate s filename of
        None \<Rightarrow> Unmodelled
      | Some path \<Rightarrow>
          if \<not> isfile s path
          then Done (sendall s (encode (''ERROR FileNotFound '' @ filename @ [NL])))
          else
            let size = getsize s path;
                s1 = sendall s (encode (''READY '' @ str_nat size @ [NL]));
                s2 = send_file (file_bytes s1 path) s1;
                s3 = sendall s2 SENTINEL
            in Done (info s3 (''File sent: '' @ filename)))"

text \<open>The chunks \<open>f.read(4096)\<close> returns for a file, in order.\<close>

function chunks :: "bytes \<Rightarrow> bytes list" where
  "chunks rest = (if rest = [] then [] else take 4096 rest # chunks (drop 4096 rest))"
  by pat_completeness auto
termination
  by (relation "measure length") auto

declare chunks.simps [simp del]

lemma concat_chunks: "concat (chunks d) = d"
proof (induction d rule: chunks.induct)
  case (1 rest)
  show ?case
  proof (cases "rest = []")
    case True
    then show ?thesis by (simp add: chunks.simps)
  next
    case False
    then have "concat (chunks rest) = take 4096 rest @ concat (chunks (drop 4096 rest))"
      by (subst chunks.simps) simp
    with 1 False show ?thesis by simp
  qed
qed

lemma chunks_bounds: "c \<in> set (chunks d) \<Longrightarrow> c \<noteq> [] \<and> length c \<le> 4096"
proof (induction d rule: chunks.induct)
  case (1 rest)
  show ?case
  proof (cases "rest = []")
    case True
    with 1(2) show ?thesis by (simp add: chunks.simps)
  next
    case False
    then have "chunks rest = take 4096 rest # chunks (drop 4096 rest)"
      by (subst chunks.simps) simp
    with 1 False show ?thesis by auto
  qed
qed

lemma send_file_eq: "send_file d s = s\<lparr>sent := sent s @ chunks d\<rparr>"
proof (induction d s rule: send_file.induct)
  case (1 rest s)
  show ?case
  proof (cases "rest = []")
    case True
    then show ?thesis by (simp add: send_file.simps chunks.simps)
  next
    case False
    then have ne: "take 4096 rest \<noteq> []" by simp
    have "send_file rest s = send_file (drop 4096 rest) (sendall s (take 4096 rest))"
      using ne by (subst send_file.simps) (simp add: Let_def)
    moreover have "chunks rest = take 4096 rest # chunks (drop 4096 rest)"
      using False by (subst chunks.simps) simp
    ultimately show ?thesis
      using 1 [OF refl ne] by (simp add: sendall_def)
  qed
qed

section \<open>Listing handler\<close>

text \<open>\<open>pattern.replace("*", ".*")\<close>\<close>

definition replace_star :: "string \<Rightarrow> string" where
  "replace_star p = concat (map (\<lambda>c. if c = CHR ''*'' then ''.*'' else [c]) p)"

text \<open>
  The fragment of Python's \<open>re\<close> the model covers: a sequence of items, each a literal
  character or the dot, alone or under a star, with an optional \<open>^\<close> in front and an
  optional \<open>$\<close> at the end. \<open>re_compile\<close> answers \<open>None\<close> for every other regular
  expression: one with another operator character, or with a byte above 127.
\<close>

datatype atom = Lit char | Dot

datatype item = One atom | Many atom

type_synonym regex = "item list \<times> bool"

definition re_special :: "char \<Rightarrow> bool" where
  "re_special c = (c \<in> set (''.^$*+?{}[]|()'' @ [CHR 0x5C]))"

definition atom_of :: "char \<Rightarrow> atom option" where
  "atom_of c =
     (if c = CHR ''.'' then Some Dot
      else if re_special c \<or> \<not> is_ascii c then None
      else Some (Lit c))"

fun parse_items :: "string \<Rightarrow> regex option" where
  "parse_items [] = Some ([], False)"
| "parse_items [c] =
     (if c = CHR ''$'' then Some ([], True)
      else (case atom_of c of None \<Rightarrow> None | Some a \<Rightarrow> Some ([One a], False)))"
| "parse_items (c # d # cs) =
     (case atom_of c of
        None \<Rightarrow> None
      | Some a \<Rightarrow>
          if d = CHR ''*''
          then (case parse_items cs of None \<Rightarrow> None | Some (r, e) \<Rightarrow> Some (Many a # r, e))
          else (case parse_items (d # cs) of None \<Rightarrow> None | Some (r, e) \<Rightarrow> Some (One a # r, e)))"

definition re_compile :: "string \<Rightarrow> regex option" where
  "re_compile r = (case r of [] \<Rightarrow> parse_items []
                   | c # cs \<Rightarrow> if c = CHR ''^'' then parse_items cs else parse_items (c # cs))"

text \<open>The dot matches every character but the line feed.\<close>

fun atom_ok :: "atom \<Rightarrow> char \<Rightarrow> bool" where
  "atom_ok (Lit a) c = (a = c)"
| "atom_ok Dot c = (c \<noteq> NL)"

text \<open>
  \<open>regex.match(name)\<close>: is there a match starting at the first character? With the
  end anchor the match must reach the end of the name, or the line feed that ends it.
\<close>

fun rx_match :: "item list \<Rightarrow> bool \<Rightarrow> string \<Rightarrow> bool" where
  "rx_match [] e s = (if e then s = [] \<or> s = [NL] else True)"
| "rx_match (One a # r) e [] = False"
| "rx_match (One a # r) e (c # cs) = (atom_ok a c \<and> rx_match r e cs)"
| "rx_match (Many a # r) e [] = rx_match r e []"
| "rx_match (Many a # r) e (c # cs) =
     (rx_match r e (c # cs) \<or> (atom_ok a c \<and> rx_match (Many a # r) e cs))"

definition re_match :: "regex \<Rightarrow> string \<Rightarrow> bool" where
  "re_match r s = rx_match (fst r) (snd r) s"

definition cmd_get_files :: "conn \<Rightarrow> string \<Rightarrow> (conn, conn) outcome" where
  "cmd_get_files s pattern =
     (case (if upper pattern = ''ALL'' then re_compile ''.*''
            else re_compile (''^'' @ replace_star pattern @ ''$'')) of
        None \<Rightarrow> Unmodelled
      | Some regex \<Rightarrow>
          let matches = filter (re_match regex) (listdir s);
              s1 = sendall s (encode (join [NL] matches @ [NL]))
          in Done (info s1 (''Sent list of '' @ str_nat (length matches) @ '' files'')))"

definition cmd_get_files_async :: "conn \<Rightarrow> string \<Rightarrow> (conn, conn) outcome" where
  "cmd_get_files_async s pattern =
     (case (if upper pattern = ''ALL'' then re_compile ''.*''
            else re_compile (''^'' @ replace_star pattern @ ''$'')) of
        None \<Rightarrow> Unmodelled
      | Some regex \<Rightarrow>
          let matches = filter (re_match regex) (listdir s);
              s1 = sendall s (encode (join [NL] matches @ [NL]))
          in Done (info s1 (''Sent list of '' @ str_nat (length matches) @ '' files'')))"

section \<open>Upload handler\<close>

text \<open>The bytes of the connection that have not been read yet; every loop below that
  reads the connection makes them fewer.\<close>

definition pending :: "conn \<Rightarrow> nat" where
  "pending s = length (concat (inbound s))"

lemma recv_seg_length:
  "recv_seg n xs = (d, r) \<Longrightarrow> length (concat r) + length d = length (concat xs)"
proof (induction xs arbitrary: d r)
  case Nil
  then show ?case by simp
next
  case (Cons c cs)
  then show ?case
    by (cases "c = []"; cases "length c \<le> n") (auto simp: min_def)
qed

lemma pending_recv: "recv n s = (d, s1) \<Longrightarrow> pending s1 + length d = pending s"
  by (auto simp: recv_def pending_def split: prod.splits dest: recv_seg_length)

lemma pending_read: "read n s = (d, s1) \<Longrightarrow> pending s1 + length d = pending s"
  by (auto simp: read_def pending_def split: prod.splits dest: recv_seg_length)

lemma pending_recv_less: "recv n s = (d, s1) \<Longrightarrow> d \<noteq> [] \<Longrightarrow> pending s1 < pending s"
  using pending_recv [of n s d s1] by (cases d) simp_all

lemma pending_read_less: "read n s = (d, s1) \<Longrightarrow> d \<noteq> [] \<Longrightarrow> pending s1 < pending s"
  using pending_read [of n s d s1] by (cases d) simp_all

lemma pending_put_entry [simp]: "pending (put_entry s p e) = pending s"
  by (cases p) (simp_all add: pending_def put_entry_def)

lemma pending_fwrite [simp]: "pending (fwrite s p data) = pending s"
  by (simp add: fwrite_def)

text \<open>
  The loop of \<open>_cmd_load\<close>, entered with the file \<open>f\<close> open and \<open>buffer\<close> empty: read
  up to 4096 bytes; an empty read raises; when the sentinel is in the buffer, write what
  precedes it and stop; otherwise write the buffer and empty it.
\<close>

function load_loop :: "place \<Rightarrow> bytes \<Rightarrow> conn \<Rightarrow> (conn, conn) outcome" where
  "load_loop f buffer s =
     (case recv 4096 s of
        (chunk, s1) \<Rightarrow>
          if chunk = [] then Raised (PeerDisconnected ''Connection lost during upload'') s1
          else
            let buffer1 = buffer @ chunk in
            (case split_once SENTINEL buffer1 of
               Some (content, rest) \<Rightarrow> Done (fwrite s1 f content)
             | None \<Rightarrow> load_loop f [] (fwrite s1 f buffer1)))"
  by pat_completeness auto
termination
  by (relation "measure (\<lambda>(f, buffer, s). pending s)")
    (auto dest: pending_recv_less [OF sym])

declare load_loop.simps [simp del]

definition cmd_load :: "conn \<Rightarrow> string \<Rightarrow> (conn, conn) outcome" where
  "cmd_load s filename =
     (let s1 = sendall s (''READY'' @ [NL]);
          file_path = path_join (storage_dir s1) filename
      in case locate s1 filename of
           None \<Rightarrow> Unmodelled
         | Some f \<Rightarrow>
             (case (case entry_at s1 f of
                      Some Dir \<Rightarrow> Raised (IsADirectoryError file_path) s1
                    | _ \<Rightarrow> load_loop f [] (open_wb s1 f)) of
                Done s2 \<Rightarrow> Done (info s2 (''Upload complete: '' @ filename))
              | Raised e s2 \<Rightarrow>
                  Raised (ErrorDuringUpload e) (error s2 (''Upload error: '' @ str_exn e))
              | Unmodelled \<Rightarrow> Unmodelled))"

text \<open>The loop of \<open>_cmd_load_async\<close>: the same, on the chunk just read.\<close>

function load_loop_async :: "place \<Rightarrow> conn \<Rightarrow> (conn, conn) outcome" where
  "load_loop_async f s =
     (case read 4096 s of
        (chunk, s1) \<Rightarrow>
          if chunk = [] then Raised (PeerDisconnected ''Connection lost during upload'') s1
          else
            (case split_once SENTINEL chunk of
               Some (content, rest) \<Rightarrow> Done (fwrite s1 f content)
             | None \<Rightarrow> load_loop_async f (fwrite s1 f chunk)))"
  by pat_completeness auto
termination
  by (relation "measure (\<lambda>(f, s). pending s)")
    (auto dest: pending_read_less [OF sym])

declare load_loop_async.simps [simp del]

definition cmd_load_async :: "conn \<Rightarrow> string \<Rightarrow> (conn, conn) outcome" where
  "cmd_load_async s filename =
     (let s1 = sendall s (''READY'' @ [NL]);
          file_path = path_join (storage_dir s1) filename
      in case locate s1 filename of
           None \<Rightarrow> Unmodelled
         | Some f \<Rightarrow>
             (case (case entry_at s1 f of
                      Some Dir \<Rightarrow> Raised (IsADirectoryError file_path) s1
                    | _ \<Rightarrow> load_loop_async f (open_wb s1 f)) of
                Done s2 \<Rightarrow> Done (info s2 (''Upload complete: '' @ filename))
              | Raised e s2 \<Rightarrow>
                  Raised (ErrorDuringUpload e) (error s2 (''Upload error: '' @ str_exn e))
              | Unmodelled \<Rightarrow> Unmodelled))"

section \<open>Command dispatcher\<close>

text \<open>The \<open>except\<close> clauses of \<open>_dispatch_command\<close>, first match first.\<close>

fun catch_dispatch :: "exn \<Rightarrow> conn \<Rightarrow> conn" where
  "catch_dispatch (FileNotFound m) s =
     sendall s (encode (''ERROR FileNotFound '' @ str_exn (FileNotFound m) @ [NL]))"
| "catch_dispatch (ErrorDuringUpload e) s =
     sendall s (encode (''ERROR ErrorDuringUpload '' @ str_exn (ErrorDuringUpload e) @ [NL]))"
| "catch_dispatch (PeerDisconnected m) s =
     sendall s (encode (''ERROR PeerDisconnected '' @ str_exn (PeerDisconnected m) @ [NL]))"
| "catch_dispatch e s = sendall s (encode (''ERROR '' @ str_exn e @ [NL]))"

text \<open>The body of the \<open>try\<close> of \<open>_dispatch_command\<close>; \<open>parts[1]\<close> raises when the line
  has one token only.\<close>

definition dispatch_try :: "conn \<Rightarrow> string list \<Rightarrow> string \<Rightarrow> (conn, conn) outcome" where
  "dispatch_try s parts cmd =
     (if cmd = ''LOAD'' then
        (if length parts < 2 then Raised IndexError s
         else let filename = parts ! 1 in cmd_load s filename)
      else if cmd = ''GET'' \<and> length parts \<ge> 3 then
        (let sub = upper (parts ! 1) in
         if sub = ''FILE'' then cmd_get_file s (parts ! 2)
         else if sub = ''FILES'' then cmd_get_files s (parts ! 2)
         else Done (sendall s (''ERROR Unknown GET subcommand'' @ [NL])))
      else Done (sendall s (''ERROR Unknown command'' @ [NL])))"

definition dispatch_command :: "conn \<Rightarrow> string \<Rightarrow> (conn, conn) outcome" where
  "dispatch_command s0 line =
     (let s = info s0 (''Command received: '' @ line);
          parts = split line
      in case parts of
           [] \<Rightarrow> Done s
         | p # ps \<Rightarrow>
             let cmd = upper p
             in (case dispatch_try s parts cmd of
                   Done s1 \<Rightarrow> Done s1
                 | Raised e s1 \<Rightarrow> Done (catch_dispatch e s1)
                 | Unmodelled \<Rightarrow> Unmodelled))"

definition dispatch_command_async :: "conn \<Rightarrow> string \<Rightarrow> (conn, conn) outcome" where
  "dispatch_command_async s line =
     (let parts = split line;
          cmd = (case parts of [] \<Rightarrow> [] | p # ps \<Rightarrow> upper p)
      in if cmd = ''LOAD'' then
           (if length parts < 2 then Raised IndexError s
            else let filename = parts ! 1 in cmd_load_async s filename)
         else if cmd = ''GET'' \<and> length parts \<ge> 3 then
           (let sub = upper (parts ! 1) in
            if sub = ''FILE'' then cmd_get_file_async s (parts ! 2)
            else if sub = ''FILES'' then cmd_get_files_async s (parts ! 2)
            else Done s)
         else Done (sendall s (''ERROR Unknown command'' @ [NL])))"

section \<open>Connection loops\<close>

text \<open>No handler gives bytes back to the connection.\<close>

fun reads_within :: "nat \<Rightarrow> (conn, conn) outcome \<Rightarrow> bool" where
  "reads_within n (Done s) = (pending s \<le> n)"
| "reads_within n (Raised e s) = (pending s \<le> n)"
| "reads_within n Unmodelled = True"

lemma pending_simps [simp]:
  "pending (sendall s b) = pending s"
  "pending (info s m) = pending s"
  "pending (error s m) = pending s"
  "pending (open_wb s p) = pending s"
  "pending (send_file d s) = pending s"
  by (simp_all add: open_wb_def) (simp_all add: pending_def sendall_def info_def error_def send_file_eq)

lemma pending_catch [simp]: "pending (catch_dispatch e s) = pending s"
  by (cases e) simp_all

lemma load_loop_reads: "reads_within (pending s) (load_loop filename buffer s)"
proof (induction filename buffer s rule: load_loop.induct)
  case (1 filename buffer s)
  obtain chunk s1 where r: "recv 4096 s = (chunk, s1)"
    by (cases "recv 4096 s")
  have le: "pending s1 \<le> pending s"
    using pending_recv [OF r] by simp
  show ?case
  proof (cases "chunk = []")
    case True
    with r le show ?thesis by (subst load_loop.simps) simp
  next
    case False
    show ?thesis
    proof (cases "split_once SENTINEL (buffer @ chunk)")
      case None
      have "reads_within (pending s1) (load_loop filename [] (fwrite s1 filename (buffer @ chunk)))"
        using 1 [OF r [symmetric] False refl None] by simp
      then have "reads_within (pending s) (load_loop filename [] (fwrite s1 filename (buffer @ chunk)))"
        using le by (cases "load_loop filename [] (fwrite s1 filename (buffer @ chunk))") simp_all
      with r False None show ?thesis by (subst load_loop.simps) simp
    next
      case (Some cr)
      with r False le show ?thesis by (subst load_loop.simps) (simp split: prod.splits)
    qed
  qed
qed

lemma load_loop_async_reads: "reads_within (pending s) (load_loop_async filename s)"
proof (induction filename s rule: load_loop_async.induct)
  case (1 filename s)
  obtain chunk s1 where r: "read 4096 s = (chunk, s1)"
    by (cases "read 4096 s")
  have le: "pending s1 \<le> pending s"
    using pending_read [OF r] by simp
  show ?case
  proof (cases "chunk = []")
    case True
    with r le show ?thesis by (subst load_loop_async.simps) simp
  next
    case False
    show ?thesis
    proof (cases "split_once SENTINEL chunk")
      case None
      have "reads_within (pending s1) (load_loop_async filename (fwrite s1 filename chunk))"
        using 1 [OF r [symmetric] False None] by simp
      then have "reads_within (pending s) (load_loop_async filename (fwrite s1 filename chunk))"
        using le by (cases "load_loop_async filename (fwrite s1 filename chunk)") simp_all
      with r False None show ?thesis by (subst load_loop_async.simps) simp
    next
      case (Some cr)
      with r False le show ?thesis by (subst load_loop_async.simps) (simp split: prod.splits)
    qed
  qed
qed

lemma cmd_load_reads: "reads_within (pending s) (cmd_load s filename)"
proof (cases "locate (sendall s (''READY'' @ [NL])) filename")
  case None
  then show ?thesis by (simp add: cmd_load_def Let_def)
next
  case (Some f)
  show ?thesis
    using Some load_loop_reads [of "open_wb (sendall s (''READY'' @ [NL])) f" f "[]"]
    by (cases "load_loop f [] (open_wb (sendall s (''READY'' @ [NL])) f)")
      (auto simp: cmd_load_def Let_def split: option.splits entry.splits)
qed

lemma cmd_load_async_reads: "reads_within (pending s) (cmd_load_async s filename)"
proof (cases "locate (sendall s (''READY'' @ [NL])) filename")
  case None
  then show ?thesis by (simp add: cmd_load_async_def Let_def)
next
  case (Some f)
  show ?thesis
    using Some load_loop_async_reads [of "open_wb (sendall s (''READY'' @ [NL])) f" f]
    by (cases "load_loop_async f (open_wb (sendall s (''READY'' @ [NL])) f)")
      (auto simp: cmd_load_async_def Let_def split: option.splits entry.splits)
qed

lemma cmd_get_file_reads:
  "reads_within (pending s) (cmd_get_file s name)"
  "reads_within (pending s) (cmd_get_file_async s name)"
  by (simp_all add: cmd_get_file_def cmd_get_file_async_def Let_def split: option.splits)

lemma cmd_get_files_reads:
  "reads_within (pending s) (cmd_get_files s pattern)"
  "reads_within (pending s) (cmd_get_files_async s pattern)"
  by (simp_all add: cmd_get_files_def cmd_get_files_async_def Let_def split: option.splits)

lemma dispatch_try_reads: "reads_within (pending s) (dispatch_try s parts cmd)"
  by (simp add: dispatch_try_def Let_def cmd_load_reads cmd_get_file_reads cmd_get_files_reads)

lemma dispatch_command_reads: "reads_within (pending s) (dispatch_command s line)"
proof -
  let ?s = "info s (''Command received: '' @ line)"
  show ?thesis
  proof (cases "split line")
    case Nil
    then show ?thesis by (simp add: dispatch_command_def)
  next
    case (Cons p ps)
    have "reads_within (pending ?s) (dispatch_try ?s (p # ps) (upper p))"
      by (rule dispatch_try_reads)
    then show ?thesis
      using Cons
      by (cases "dispatch_try ?s (p # ps) (upper p)") (simp_all add: dispatch_command_def)
  qed
qed

lemma dispatch_command_async_reads:
  "reads_within (pending s) (dispatch_command_async s line)"
  by (simp add: dispatch_command_async_def Let_def cmd_load_async_reads cmd_get_file_reads
      cmd_get_files_reads)

lemma split_once_length:
  "split_once sep xs = Some (a, b) \<Longrightarrow> length a + length sep + length b = length xs"
proof (induction xs arbitrary: a b)
  case Nil
  then show ?case by (simp split: if_splits)
next
  case (Cons x xs)
  show ?case
  proof (cases "take (length sep) (x # xs) = sep")
    case True
    then have "length (take (length sep) (x # xs)) = length sep"
      by simp
    then have "length sep \<le> length (x # xs)"
      by simp
    with True Cons.prems show ?thesis by auto
  next
    case False
    with Cons show ?thesis by (auto split: option.splits)
  qed
qed

lemma split_once_shorter: "split_once [NL] xs = Some (a, b) \<Longrightarrow> length b < length xs"
  using split_once_length [of "[NL]" xs a b] by simp

lemma readline_seg_length:
  "readline_seg xs = (d, r) \<Longrightarrow> length (concat r) + length d = length (concat xs)"
proof (induction xs arbitrary: d r)
  case Nil
  then show ?case by simp
next
  case (Cons c cs)
  show ?case
  proof (cases "split_once [NL] c")
    case None
    with Cons show ?thesis by (auto split: prod.splits)
  next
    case (Some lr)
    obtain l rest where lr: "lr = (l, rest)" by (cases lr)
    have "length l + 1 + length rest = length c"
      using split_once_length [of "[NL]" c l rest] Some lr by simp
    with Cons.prems Some lr show ?thesis by (auto split: if_splits)
  qed
qed

lemma pending_readline_less:
  "readline s = (d, s1) \<Longrightarrow> d \<noteq> [] \<Longrightarrow> pending s1 < pending s"
  using readline_seg_length [of "inbound s" d "inbound s1"]
  by (cases d) (auto simp: readline_def pending_def split: prod.splits)

text \<open>
  The inner loop of \<open>_handle_client\<close>: while there is a line feed in the buffer, cut
  the first line off, decode and strip it, and dispatch it. An exception leaves the loop.
\<close>

function process_buffer :: "conn \<Rightarrow> bytes \<Rightarrow> (conn \<times> bytes, conn) outcome" where
  "process_buffer s buffer =
     (case split_once [NL] buffer of
        None \<Rightarrow> Done (s, buffer)
      | Some (line, rest) \<Rightarrow>
          (case decode line of
             None \<Rightarrow> Unmodelled
           | Some text \<Rightarrow>
               (case dispatch_command s (strip text) of
                  Done s1 \<Rightarrow> process_buffer s1 rest
                | Raised e s1 \<Rightarrow> Raised e s1
                | Unmodelled \<Rightarrow> Unmodelled)))"
  by pat_completeness auto
termination
  by (relation "measure (\<lambda>(s, buffer). length buffer)")
    (auto dest: split_once_shorter)

declare process_buffer.simps [simp del]

lemma process_buffer_reads:
  "process_buffer s buffer = Done (s2, b2) \<Longrightarrow> pending s2 \<le> pending s"
proof (induction s buffer rule: process_buffer.induct)
  case (1 s buffer)
  show ?case
  proof (cases "split_once [NL] buffer")
    case None
    with 1(2) show ?thesis by (simp add: process_buffer.simps)
  next
    case (Some lr)
    note sp = this
    obtain line rest where lr: "lr = (line, rest)" by (cases lr)
    show ?thesis
    proof (cases "decode line")
      case None
      with 1(2) sp lr show ?thesis by (simp add: process_buffer.simps)
    next
      case (Some ln)
      note dec = this
      show ?thesis
      proof (cases "dispatch_command s (strip ln)")
        case (Done s1)
        have "pending s1 \<le> pending s"
          using dispatch_command_reads [of s "strip ln"] Done by simp
        moreover have "process_buffer s1 rest = Done (s2, b2)"
          using 1(2) sp lr dec Done
          by (simp add: process_buffer.simps)
        then have "pending s2 \<le> pending s1"
          using 1(1) [OF sp lr [symmetric] dec Done] by simp
        ultimately show ?thesis by simp
      next
        case (Raised e s1)
        with 1(2) sp lr dec show ?thesis
          by (simp add: process_buffer.simps)
      next
        case Unmodelled
        with 1(2) sp lr dec show ?thesis
          by (simp add: process_buffer.simps)
      qed
    qed
  qed
qed

text \<open>The outer loop of \<open>_handle_client\<close>: read up to 1024 bytes; an empty read ends
  the loop; otherwise add the bytes to the buffer and run the inner loop.\<close>

function recv_loop :: "conn \<Rightarrow> bytes \<Rightarrow> (conn, conn) outcome" where
  "recv_loop s buffer =
     (case recv 1024 s of
        (data, s1) \<Rightarrow>
          if data = [] then Done s1
          else
            (case process_buffer s1 (buffer @ data) of
               Done (s2, buffer1) \<Rightarrow> recv_loop s2 buffer1
             | Raised e s2 \<Rightarrow> Raised e s2
             | Unmodelled \<Rightarrow> Unmodelled))"
  by pat_completeness auto
termination
  by (relation "measure (\<lambda>(s, buffer). pending s)")
    (auto dest!: pending_recv_less [OF sym] process_buffer_reads)

declare recv_loop.simps [simp del]

text \<open>
  \<open>_handle_client\<close>: the loop, with an exception that leaves it logged, and the
  connection closed at the end in every case.
\<close>

definition handle_client :: "conn \<Rightarrow> (conn, conn) outcome" where
  "handle_client s =
     (case recv_loop s [] of
        Done s1 \<Rightarrow>
          Done (s1\<lparr>closed := True, log := log s1 @ [(INFO, ''[-] Connection closed: '' @ addr s1)]\<rparr>)
      | Raised e s1 \<Rightarrow>
          (let s2 = error s1 (''Error: '' @ str_exn e)
           in Done (s2\<lparr>closed := True,
                        log := log s2 @ [(INFO, ''[-] Connection closed: '' @ addr s2)]\<rparr>))
      | Unmodelled \<Rightarrow> Unmodelled)"

text \<open>The loop of \<open>_handle_client_async\<close>: a line at a time until the stream ends.\<close>

lemma dispatch_command_async_done:
  "dispatch_command_async s ln = Done s1 \<Longrightarrow> pending s1 \<le> pending s"
  using dispatch_command_async_reads [of s ln] by simp

function readline_loop :: "conn \<Rightarrow> (conn, conn) outcome" where
  "readline_loop s =
     (if at_eof s then Done s
      else
        (case readline s of
           (data, s1) \<Rightarrow>
             if data = [] then Done s1
             else
               (case decode data of
                  None \<Rightarrow> Unmodelled
                | Some text \<Rightarrow>
                    (case dispatch_command_async s1 (strip text) of
                       Done s2 \<Rightarrow> readline_loop s2
                     | Raised e s2 \<Rightarrow> Raised e s2
                     | Unmodelled \<Rightarrow> Unmodelled))))"
  by pat_completeness auto
termination
  by (relation "measure pending")
    (auto dest!: pending_readline_less [OF sym] dispatch_command_async_done)

declare readline_loop.simps [simp del]

definition handle_client_async :: "conn \<Rightarrow> (conn, conn) outcome" where
  "handle_client_async s =
     (case readline_loop s of
        Done s1 \<Rightarrow>
          Done (s1\<lparr>closed := True,
                   log := log s1 @ [(INFO, ''[-] Async connection closed: '' @ addr s1)]\<rparr>)
      | Raised e s1 \<Rightarrow>
          (let s2 = error s1 (''Async error: '' @ str_exn e)
           in Done (s2\<lparr>closed := True,
                        log := log s2 @ [(INFO, ''[-] Async connection closed: '' @ addr s2)]\<rparr>))
      | Unmodelled \<Rightarrow> Unmodelled)"

section \<open>Client transfer engine\<close>

text \<open>
  The client, seen from its side of one connection: \<open>client_socket\<close> tells whether the
  socket is set, \<open>from_server\<close> holds the segments the server's bytes arrive in, \<open>to_server\<close>
  the frames handed to \<open>sendall\<close>, \<open>local_files\<close> the local paths the client reads and
  writes, \<open>progress\<close> the arguments the progress callback was called with.
\<close>

record client =
  client_socket :: bool
  from_server :: "bytes list"
  to_server :: "bytes list"
  local_files :: "(string \<times> entry) list"
  client_log :: "(level \<times> string) list"
  progress :: "nat list"

definition client_sendall :: "client \<Rightarrow> bytes \<Rightarrow> client" where
  "client_sendall c b = c\<lparr>to_server := to_server c @ [b]\<rparr>"

definition client_recv :: "nat \<Rightarrow> client \<Rightarrow> bytes \<times> client" where
  "client_recv n c =
     (case recv_seg n (from_server c) of (data, rest) \<Rightarrow> (data, c\<lparr>from_server := rest\<rparr>))"

definition client_info :: "client \<Rightarrow> string \<Rightarrow> client" where
  "client_info c m = c\<lparr>client_log := client_log c @ [(INFO, m)]\<rparr>"

definition client_error :: "client \<Rightarrow> string \<Rightarrow> client" where
  "client_error c m = c\<lparr>client_log := client_log c @ [(ERROR, m)]\<rparr>"

definition local_isfile :: "client \<Rightarrow> string \<Rightarrow> bool" where
  "local_isfile c path = (case map_of (local_files c) path of Some (File d) \<Rightarrow> True | _ \<Rightarrow> False)"

definition local_bytes :: "client \<Rightarrow> string \<Rightarrow> bytes" where
  "local_bytes c path = (case map_of (local_files c) path of Some (File d) \<Rightarrow> d | _ \<Rightarrow> [])"

text \<open>\<open>os.path.basename(path)\<close>\<close>

definition basename :: "string \<Rightarrow> string" where
  "basename path = rev (takeWhile (\<lambda>c. c \<noteq> CHR ''/'') (rev path))"

text \<open>
  \<open>compress_file(path)\<close> writes the archive of the file beside it and returns the
  archive's path. The archive format is the business of \<open>zipfile\<close>: what it makes of a
  member name and the member's bytes is the parameter \<open>zip_bytes\<close>.
\<close>

definition compress_file ::
  "(string \<Rightarrow> bytes \<Rightarrow> bytes) \<Rightarrow> client \<Rightarrow> string \<Rightarrow> (string \<times> client, client) outcome" where
  "compress_file zip_bytes c path =
     (let zip_path = path @ ''.zip'' in
      case map_of (local_files c) zip_path of
        Some Dir \<Rightarrow> Raised (IsADirectoryError zip_path) c
      | _ \<Rightarrow>
          Done (zip_path,
                c\<lparr>local_files :=
                    AList.update zip_path (File (zip_bytes (basename path) (local_bytes c path)))
                      (local_files c)\<rparr>))"

text \<open>The loop of \<open>upload\<close> over the bytes of the file not yet read: send a chunk of
  up to 4096 bytes and report its length to the progress callback when there is one.\<close>

function send_chunks :: "bytes \<Rightarrow> bool \<Rightarrow> client \<Rightarrow> client" where
  "send_chunks rest progress_cb c =
     (let chunk = take 4096 rest in
      if chunk = [] then c
      else
        let c1 = client_sendall c chunk;
            c2 = (if progress_cb then c1\<lparr>progress := progress c1 @ [length chunk]\<rparr> else c1)
        in send_chunks (drop 4096 rest) progress_cb c2)"
  by pat_completeness auto
termination
  by (relation "measure (\<lambda>(rest, progress_cb, c). length rest)") auto

declare send_chunks.simps [simp del]

definition upload ::
  "(string \<Rightarrow> bytes \<Rightarrow> bytes) \<Rightarrow> client \<Rightarrow> string \<Rightarrow> bool \<Rightarrow> bool \<Rightarrow> (client, client) outcome" where
  "upload zip_bytes c file_name compress progress_cb =
     (if \<not> client_socket c then Done (client_error c ''Not connected to server.'')
      else if \<not> local_isfile c file_name then
        Raised (FileNotFound (''File '' @ file_name @ '' not found.''))
               (client_error c (''File '' @ file_name @ '' not found.''))
      else
        (case (if compress then compress_file zip_bytes c file_name else Done (file_name, c)) of
           Raised e c1 \<Rightarrow> Raised e c1
         | Unmodelled \<Rightarrow> Unmodelled
         | Done (file_to_send, c1) \<Rightarrow>
             let label = basename file_to_send;
                 command = ''LOAD '' @ label @ '' '' @ (if compress then ''COMPRESSED'' else [])
                           @ [NL];
                 c2 = client_sendall c1 (encode command)
             in (case client_recv 1024 c2 of
                   (data, c3) \<Rightarrow>
                     (case decode data of
                        None \<Rightarrow> Unmodelled
                      | Some reply \<Rightarrow>
                          let resp = strip reply in
                          if resp \<noteq> ''READY''
                          then Done (client_error c3 (''Server not ready for upload: '' @ resp))
                          else
                            let c4 = send_chunks (local_bytes c3 file_to_send) progress_cb c3;
                                c5 = client_sendall c4 SENTINEL;
                                c6 = client_info c5 (''Upload of '' @ file_name @ '' complete.'')
                            in if compress
                               then Done (client_info
                                            (c6\<lparr>local_files :=
                                                  AList.delete file_to_send (local_files c6)\<rparr>)
                                            (''Removed temporary zip file: '' @ file_to_send))
                               else Done c6))))"

section \<open>Properties of the download handler\<close>

text \<open>A connection that has just been accepted: nothing sent, nothing logged.\<close>

definition peer0 :: string where
  "peer0 = ''127.0.0.1:50000''"

definition accepted :: "bytes list \<Rightarrow> (string \<times> entry) list \<Rightarrow> conn" where
  "accepted segs fs = \<lparr>inbound = segs, sent = [], files = fs, outside = [],
                        storage_dir = ''database'', addr = peer0, log = [], closed = False\<rparr>"

definition conn0 :: conn where
  "conn0 = accepted [] [(''a.txt'', File ''data123''), (''sub'', Dir)]"

lemmas state_defs = accepted_def sendall_def info_def error_def recv_def read_def readline_def
  at_eof_def isfile_def file_bytes_def getsize_def listdir_def open_wb_def fwrite_def
  entry_at_def put_entry_def locate_def plain_name_def

lemma digit_val_char: "d < 10 \<Longrightarrow> digit_val (digit_char d) = d"
proof -
  assume "d < 10"
  then have "d \<in> {0, 1, 2, 3, 4, 5, 6, 7, 8, 9}" by auto
  then show ?thesis
    by (auto simp: digit_val_def digit_char_def)
qed

lemma int_str_str_nat: "int_str (str_nat n) = n"
proof (induction n rule: str_nat.induct)
  case (1 n)
  show ?case
  proof (cases "n < 10")
    case True
    then show ?thesis
      by (subst str_nat.simps) (simp add: int_str_def digit_val_char)
  next
    case False
    then have "str_nat n = str_nat (n div 10) @ [digit_char (n mod 10)]"
      by (subst str_nat.simps) simp
    then have "int_str (str_nat n) = 10 * int_str (str_nat (n div 10)) + digit_val (digit_char (n mod 10))"
      by (simp add: int_str_def)
    with 1 False show ?thesis
      by (simp add: digit_val_char)
  qed
qed


lemma get_file_stored:
  assumes "map_of (files s) name = Some (File d)"
  shows "cmd_get_file s name =
           Done (s\<lparr>sent := sent s @ [encode (''READY '' @ str_nat (length d) @ [NL])]
                                  @ chunks d @ [SENTINEL],
                    log := log s @ [(INFO, ''['' @ addr s @ ''] File sent: '' @ name)]\<rparr>)"
    and "cmd_get_file_async s name = cmd_get_file s name"
proof -
  have l: "locate s name = Some (Inside name)"
    using assms by (simp add: locate_def)
  have f: "isfile s (Inside name)" "file_bytes s (Inside name) = d"
    "getsize s (Inside name) = length d"
    using assms by (simp_all add: isfile_def file_bytes_def getsize_def entry_at_def)
  have fb: "file_bytes (sendall s x) (Inside name) = d" for x
    using assms by (simp add: file_bytes_def sendall_def entry_at_def)
  show "cmd_get_file s name =
          Done (s\<lparr>sent := sent s @ [encode (''READY '' @ str_nat (length d) @ [NL])]
                                 @ chunks d @ [SENTINEL],
                   log := log s @ [(INFO, ''['' @ addr s @ ''] File sent: '' @ name)]\<rparr>)"
    using f by (simp add: cmd_get_file_def Let_def l fb send_file_eq) (simp add: sendall_def info_def)
  show "cmd_get_file_async s name = cmd_get_file s name"
    by (simp add: cmd_get_file_def cmd_get_file_async_def)
qed

text \<open>
  C4. For a stored file of \<open>n\<close> bytes, GET FILE on its name sends, in this order and
  nothing else: the line \<open>READY n\<close> with \<open>n\<close> the length of the file in decimal
  (read back as a number it is the length); the file's bytes in chunks of at most 4096
  bytes, \<open>n\<close> bytes in all and equal to the file; the sentinel. Both runtimes do so, and
  the storage is left as it was.
\<close>

theorem get_file_frames:
  assumes "map_of (files s) name = Some (File d)"
  shows "cmd_get_file s name =
           Done (s\<lparr>sent := sent s @ [encode (''READY '' @ str_nat (length d) @ [NL])]
                                  @ chunks d @ [SENTINEL],
                    log := log s @ [(INFO, ''['' @ addr s @ ''] File sent: '' @ name)]\<rparr>)
         \<and> cmd_get_file_async s name = cmd_get_file s name
         \<and> int_str (str_nat (length d)) = length d
         \<and> concat (chunks d) = d
         \<and> length (concat (chunks d)) = length d
         \<and> (\<forall>c \<in> set (chunks d). c \<noteq> [] \<and> length c \<le> 4096)"
  using get_file_stored [OF assms] concat_chunks [of d] chunks_bounds [of _ d]
    int_str_str_nat [of "length d"] by simp

theorem get_file_frames_witness:
  "map_of (files conn0) ''a.txt'' = Some (File ''data123'')
   \<and> cmd_get_file conn0 ''a.txt'' =
       Done (conn0\<lparr>sent := [''READY 7'' @ [NL], ''data123'', ''<END>'' @ [NL]],
                    log := [(INFO, ''['' @ peer0 @ ''] File sent: a.txt'')]\<rparr>)
   \<and> cmd_get_file_async conn0 ''a.txt'' =
       Done (conn0\<lparr>sent := [''READY 7'' @ [NL], ''data123'', ''<END>'' @ [NL]],
                    log := [(INFO, ''['' @ peer0 @ ''] File sent: a.txt'')]\<rparr>)"
proof -
  have h: "map_of (files conn0) ''a.txt'' = Some (File ''data123'')"
    by (simp add: conn0_def accepted_def)
  have c: "chunks ''data123'' = [''data123'']"
    by (simp add: chunks.simps)
  have l: "length ''data123'' = 7"
    by simp
  have n: "str_nat 7 = ''7''"
    by (simp add: str_nat.simps digit_char_def)
  have s: "sent conn0 = []" "log conn0 = []" "addr conn0 = peer0"
    by (simp_all add: conn0_def accepted_def)
  note t = get_file_frames [OF h, unfolded l n c s]
  show ?thesis
    using h t by (simp add: encode_def SENTINEL_def)
qed

text \<open>A plain name is looked for in the storage directory and nowhere else.\<close>

lemma locate_plain: "plain_name name \<Longrightarrow> locate s name = Some (Inside name)"
  by (simp add: locate_def)





text \<open>
  The reading of a pattern the listing is compared with: \<open>*\<close> stands for any run of
  characters, every other character for itself, and the pattern has to match the whole
  name.
\<close>

fun glob_match :: "string \<Rightarrow> string \<Rightarrow> bool" where
  "glob_match [] n = (n = [])"
| "glob_match (p # ps) [] = (p = CHR ''*'' \<and> glob_match ps [])"
| "glob_match (p # ps) (c # cs) =
     (if p = CHR ''*'' then glob_match ps (c # cs) \<or> glob_match (p # ps) cs
      else p = c \<and> glob_match ps cs)"

text \<open>The same with the dot standing for any one character.\<close>

fun wild_match :: "string \<Rightarrow> string \<Rightarrow> bool" where
  "wild_match [] n = (n = [])"
| "wild_match (p # ps) [] = (p = CHR ''*'' \<and> wild_match ps [])"
| "wild_match (p # ps) (c # cs) =
     (if p = CHR ''*'' then wild_match ps (c # cs) \<or> wild_match (p # ps) cs
      else (p = CHR ''.'' \<or> p = c) \<and> wild_match ps cs)"

text \<open>The patterns whose translation stays inside the modelled fragment: ASCII
  characters of which only \<open>*\<close> and the dot are operators of \<open>re\<close>.\<close>

definition glob_char :: "char \<Rightarrow> bool" where
  "glob_char c = (is_ascii c \<and> (re_special c \<longrightarrow> c = CHR ''*'' \<or> c = CHR ''.''))"

definition glob_item :: "char \<Rightarrow> item" where
  "glob_item c = (if c = CHR ''*'' then Many Dot else if c = CHR ''.'' then One Dot else One (Lit c))"

lemma rx_match_dot_star: "rx_match [Many Dot] False s"
  by (cases s) simp_all

lemma re_compile_dot_star: "re_compile ''.*'' = Some ([Many Dot], False)"
  by (simp add: re_compile_def atom_of_def)

lemma replace_star_Cons:
  "replace_star (c # ps) = (if c = CHR ''*'' then ''.*'' else [c]) @ replace_star ps"
  by (simp add: replace_star_def)

lemma replace_star_head:
  "\<exists>d ds. replace_star ps @ ''$'' = d # ds \<and> d \<noteq> CHR ''*''"
  by (cases ps) (auto simp: replace_star_def)

lemma atom_of_glob:
  "glob_char c \<Longrightarrow> c \<noteq> CHR ''*'' \<Longrightarrow> atom_of c = Some (if c = CHR ''.'' then Dot else Lit c)"
  by (auto simp: glob_char_def atom_of_def)

lemma parse_items_glob:
  "list_all glob_char p \<Longrightarrow> parse_items (replace_star p @ ''$'') = Some (map glob_item p, True)"
proof (induction p)
  case Nil
  then show ?case by (simp add: replace_star_def)
next
  case (Cons c ps)
  obtain d ds where r: "replace_star ps @ ''$'' = d # ds" and d: "d \<noteq> CHR ''*''"
    using replace_star_head by blast
  have ih: "parse_items (d # ds) = Some (map glob_item ps, True)"
    using Cons r by simp
  show ?case
  proof (cases "c = CHR ''*''")
    case True
    have "replace_star (c # ps) @ ''$'' = CHR ''.'' # CHR ''*'' # d # ds"
      using True r by (simp add: replace_star_Cons)
    then show ?thesis
      using ih True by (simp add: atom_of_def glob_item_def)
  next
    case False
    have g: "glob_char c" using Cons.prems by simp
    have "replace_star (c # ps) @ ''$'' = c # d # ds"
      using False r by (simp add: replace_star_Cons)
    then show ?thesis
      using ih False d atom_of_glob [OF g False] by (simp add: glob_item_def)
  qed
qed

lemma rx_match_glob:
  "NL \<notin> set n \<Longrightarrow> rx_match (map glob_item p) True n = wild_match p n"
proof (induction p n rule: wild_match.induct)
  case (1 n)
  then show ?case by auto
next
  case (2 p ps)
  then show ?case by (simp add: glob_item_def)
next
  case (3 p ps c cs)
  then show ?case by (auto simp: glob_item_def)
qed


definition dir_logs :: conn where
  "dir_logs = accepted [] [(''one.log'', File ''x''), (''two.txt'', File ''x''),
                           (''three.log'', File ''x'')]"

definition dir_catalog :: conn where
  "dir_catalog = accepted [] [(''catalog'', File ''x'')]"

lemmas text_defs = upper_def upper_char_def is_ascii_def is_space_def NL_def encode_def
  SENTINEL_def strip_def split_def decode_def digit_char_def

lemmas listing_defs = cmd_get_files_def cmd_get_files_async_def re_compile_def replace_star_def
  atom_of_def re_special_def re_match_def

text \<open>The reply to a listing request that found \<open>names\<close>: one frame with the names, each
  followed by a line feed (a lone line feed when there is none), and one line of log.\<close>

definition listing_reply :: "conn \<Rightarrow> string list \<Rightarrow> conn" where
  "listing_reply s names =
     s\<lparr>sent := sent s @ [encode (join [NL] names @ [NL])],
       log := log s @ [(INFO, ''['' @ addr s @ ''] Sent list of '' @ str_nat (length names)
                              @ '' files'')]\<rparr>"

text \<open>
  What the handler computes on the patterns of the fragment. The pattern is handed to
  \<open>re\<close> with \<open>*\<close> replaced by \<open>.*\<close> and nothing escaped, so its dot matches any one
  character. For a pattern that is not ALL in any letter case, made of ASCII characters
  of which only \<open>*\<close> and the dot are operators of \<open>re\<close>, and stored names without a line
  feed, GET FILES lists exactly the names that the pattern matches as a whole, \<open>*\<close>
  standing for any run of characters, the dot for any one character and every other
  character for itself.
\<close>

lemma get_files_wild:
  assumes "upper pattern \<noteq> ''ALL''"
    and "list_all glob_char pattern"
    and "\<forall>n \<in> set (listdir s). NL \<notin> set n"
  shows "cmd_get_files s pattern = Done (listing_reply s (filter (wild_match pattern) (listdir s)))"
    and "cmd_get_files_async s pattern = cmd_get_files s pattern"
proof -
  have c: "re_compile (''^'' @ replace_star pattern @ ''$'') = Some (map glob_item pattern, True)"
    using parse_items_glob [OF assms(2)] by (simp add: re_compile_def)
  have "filter (re_match (map glob_item pattern, True)) (listdir s)
        = filter (wild_match pattern) (listdir s)"
    using assms(3) by (intro filter_cong refl) (simp add: re_match_def rx_match_glob)
  then show "cmd_get_files s pattern =
           Done (listing_reply s (filter (wild_match pattern) (listdir s)))"
    using assms(1) c by (simp add: cmd_get_files_def listing_reply_def sendall_def info_def Let_def)
  show "cmd_get_files_async s pattern = cmd_get_files s pattern"
    by (simp add: cmd_get_files_def cmd_get_files_async_def)
qed

lemma get_files_wild_logs:
  "cmd_get_files dir_logs ''*.log'' = Done (listing_reply dir_logs [''one.log'', ''three.log''])"
proof -
  have h1: "upper ''*.log'' \<noteq> ''ALL''"
    by (simp add: text_defs)
  have h2: "list_all glob_char ''*.log''"
    by (simp add: glob_char_def re_special_def is_ascii_def)
  have h3: "\<forall>n \<in> set (listdir dir_logs). NL \<notin> set n"
    by (simp add: listdir_def dir_logs_def accepted_def NL_def)
  have f: "filter (wild_match ''*.log'') (listdir dir_logs) = [''one.log'', ''three.log'']"
    by (simp add: listdir_def dir_logs_def accepted_def)
  show ?thesis
    using get_files_wild(1) [OF h1 h2 h3] by (simp add: f)
qed

text \<open>
  C5. The claim reads a pattern as a glob whose only wildcard is \<open>*\<close>. The handler does
  not: the dot of \<open>*.log\<close> matches any character, and GET FILES \<open>*.log\<close> lists the stored
  name catalog, in both runtimes, which that glob does not match.
\<close>

theorem get_files_dot_not_literal:
  "upper ''*.log'' \<noteq> ''ALL''
   \<and> cmd_get_files dir_catalog ''*.log'' = Done (listing_reply dir_catalog [''catalog''])
   \<and> cmd_get_files_async dir_catalog ''*.log'' = Done (listing_reply dir_catalog [''catalog''])
   \<and> sent (listing_reply dir_catalog [''catalog'']) = [''catalog'' @ [NL]]
   \<and> \<not> glob_match ''*.log'' ''catalog''"
  by (simp add: dir_catalog_def listing_defs text_defs state_defs listing_reply_def)

text \<open>
  C10. The test for ALL is made on the upper-cased pattern: for every pattern that is
  ALL up to letter case, GET FILES lists every entry of the storage directory, in both
  runtimes.
\<close>

theorem get_files_all_any_case:
  assumes "upper pattern = ''ALL''"
  shows "cmd_get_files s pattern = Done (listing_reply s (listdir s))
         \<and> cmd_get_files_async s pattern = Done (listing_reply s (listdir s))
         \<and> sent (listing_reply s (listdir s)) = sent s @ [encode (join [NL] (listdir s) @ [NL])]"
  using assms
  by (simp add: cmd_get_files_def cmd_get_files_async_def re_compile_dot_star re_match_def
      rx_match_dot_star listing_reply_def sendall_def info_def Let_def)

theorem get_files_all_any_case_witness:
  "upper ''all'' = ''ALL'' \<and> upper ''All'' = ''ALL''
   \<and> cmd_get_files dir_logs ''all'' =
       Done (listing_reply dir_logs [''one.log'', ''two.txt'', ''three.log''])
   \<and> cmd_get_files_async dir_logs ''All'' =
       Done (listing_reply dir_logs [''one.log'', ''two.txt'', ''three.log''])
   \<and> sent (listing_reply dir_logs [''one.log'', ''two.txt'', ''three.log''])
       = [''one.log'' @ [NL] @ ''two.txt'' @ [NL] @ ''three.log'' @ [NL]]"
proof -
  have h1: "upper ''all'' = ''ALL''" and h2: "upper ''All'' = ''ALL''"
    by (simp_all add: text_defs)
  have l: "listdir dir_logs = [''one.log'', ''two.txt'', ''three.log'']"
    by (simp add: listdir_def dir_logs_def accepted_def)
  have s: "sent dir_logs = []"
    by (simp add: dir_logs_def accepted_def)
  show ?thesis
    using h1 h2 get_files_all_any_case [OF h1, of dir_logs] get_files_all_any_case [OF h2, of dir_logs]
    by (simp add: l s encode_def)
qed

section \<open>Properties of the upload path and of the dispatchers\<close>

text \<open>The state a call ends in, whether it returns or raises.\<close>

fun reached :: "('s, 's) outcome \<Rightarrow> 's option" where
  "reached (Done s) = Some s"
| "reached (Raised e s) = Some s"
| "reached Unmodelled = None"

lemma split_once_Some:
  "split_once sep xs = Some (a, b) \<Longrightarrow> xs = a @ sep @ b"
proof (induction xs arbitrary: a b)
  case Nil
  then show ?case by (simp split: if_splits)
next
  case (Cons x xs)
  show ?case
  proof (cases "take (length sep) (x # xs) = sep")
    case True
    then have "a = []" "b = drop (length sep) (x # xs)"
      using Cons.prems by simp_all
    then show ?thesis
      using True append_take_drop_id [of "length sep" "x # xs"] by simp
  next
    case False
    with Cons show ?thesis by (auto split: option.splits)
  qed
qed

lemma split_once_occurs:
  "split_once sep (a @ sep @ b) \<noteq> None"
proof (induction a)
  case Nil
  have t: "take (length sep) (sep @ b) = sep" by simp
  show ?case
  proof (cases "sep @ b")
    case Nil
    then show ?thesis by simp
  next
    case (Cons y ys)
    with t have "take (length sep) (y # ys) = sep" by simp
    with Cons show ?thesis by simp
  qed
next
  case (Cons x a)
  then show ?case by (auto split: option.splits)
qed

lemma split_once_None_mid:
  assumes "split_once sep (a @ c @ b) = None"
  shows "split_once sep c = None"
proof (rule ccontr)
  assume "split_once sep c \<noteq> None"
  then obtain u v where "split_once sep c = Some (u, v)" by auto
  then have "c = u @ sep @ v" by (rule split_once_Some)
  then have "a @ c @ b = (a @ u) @ sep @ (v @ b)" by simp
  then show False
    using assms split_once_occurs [of sep "a @ u" "v @ b"] by simp
qed

text \<open>No proper end of the sentinel is a beginning of it, so the sentinel that follows
  bytes without one is the first occurrence.\<close>

lemma sentinel_first:
  "split_once SENTINEL t = None \<Longrightarrow> split_once SENTINEL (t @ SENTINEL @ r) = Some (t, r)"
proof (induction t)
  case Nil
  show ?case by (simp add: SENTINEL_def)
next
  case (Cons x t)
  have n: "take (length SENTINEL) (x # t) \<noteq> SENTINEL" and r: "split_once SENTINEL t = None"
    using Cons.prems by (auto split: if_splits option.splits)
  have "take (length SENTINEL) (x # t @ SENTINEL @ r) \<noteq> SENTINEL"
    using n
    apply (simp add: SENTINEL_def NL_def)
    apply (cases t; simp)
    apply (rename_tac a1 t1, case_tac t1; simp)
    apply (rename_tac a2 t2, case_tac t2; simp)
    apply (rename_tac a3 t3, case_tac t3; simp)
    apply (rename_tac a4 t4, case_tac t4; simp)
    done
  with Cons.IH [OF r] show ?case by simp
qed


lemma recv_seg_whole:
  "c \<noteq> [] \<Longrightarrow> length c \<le> n \<Longrightarrow> recv_seg n (c # cs) = (c, cs)"
  by simp

lemma file_bytes_fwrite [simp]: "file_bytes (fwrite s (Inside f) d) (Inside f) = file_bytes s (Inside f) @ d"
  by (simp add: file_bytes_def fwrite_def put_entry_def entry_at_def update_conv')

lemma fwrite_fwrite:
  "(fwrite s (Inside f) c)\<lparr>inbound := i, files := AList.update f v (files (fwrite s (Inside f) c))\<rparr>
   = s\<lparr>inbound := i, files := AList.update f v (files s)\<rparr>"
  by (simp add: fwrite_def put_entry_def)

lemma load_loop_unsplit:
  assumes "\<forall>c \<in> set pre. c \<noteq> [] \<and> length c \<le> 4096"
    and "length (t @ SENTINEL @ junk) \<le> 4096"
    and "split_once SENTINEL (concat pre @ t) = None"
    and "inbound s = pre @ (t @ SENTINEL @ junk) # later"
  shows "load_loop (Inside f) [] s =
           Done (s\<lparr>inbound := later,
                    files := AList.update f (File (file_bytes s (Inside f) @ concat pre @ t)) (files s)\<rparr>)"
  using assms
proof (induction pre arbitrary: s)
  case Nil
  have ne: "t @ SENTINEL @ junk \<noteq> []"
    by (simp add: SENTINEL_def)
  have "recv_seg 4096 ((t @ SENTINEL @ junk) # later) = (t @ SENTINEL @ junk, later)"
    using ne Nil.prems(2) by (rule recv_seg_whole)
  then have r: "recv 4096 s = (t @ SENTINEL @ junk, s\<lparr>inbound := later\<rparr>)"
    using Nil.prems(4) by (simp add: recv_def del: recv_seg.simps)
  have sp: "split_once SENTINEL (t @ SENTINEL @ junk) = Some (t, junk)"
    using Nil.prems(3) by (simp add: sentinel_first)
  show ?case
    using r ne sp
    by (subst load_loop.simps) (simp add: fwrite_def file_bytes_def put_entry_def entry_at_def)
next
  case (Cons c pre)
  have c: "c \<noteq> []" "length c \<le> 4096"
    using Cons.prems(1) by simp_all
  let ?s1 = "s\<lparr>inbound := pre @ (t @ SENTINEL @ junk) # later\<rparr>"
  have "recv_seg 4096 (c # pre @ (t @ SENTINEL @ junk) # later)
          = (c, pre @ (t @ SENTINEL @ junk) # later)"
    using c by (rule recv_seg_whole)
  then have r: "recv 4096 s = (c, ?s1)"
    using Cons.prems(4) by (simp add: recv_def del: recv_seg.simps)
  have n1: "split_once SENTINEL c = None"
    using Cons.prems(3) split_once_None_mid [of SENTINEL "[]" c "concat pre @ t"] by simp
  have n2: "split_once SENTINEL (concat pre @ t) = None"
    using Cons.prems(3) split_once_None_mid [of SENTINEL c "concat pre @ t" "[]"] by simp
  have step: "load_loop (Inside f) [] s = load_loop (Inside f) [] (fwrite ?s1 (Inside f) c)"
    using r c n1 by (subst load_loop.simps) simp
  have ih: "load_loop (Inside f) [] (fwrite ?s1 (Inside f) c) =
      Done ((fwrite ?s1 (Inside f) c)\<lparr>inbound := later,
              files := AList.update f (File (file_bytes (fwrite ?s1 (Inside f) c) (Inside f) @ concat pre @ t))
                         (files (fwrite ?s1 (Inside f) c))\<rparr>)"
    using Cons.prems(1,2) n2 by (intro Cons.IH) (simp_all add: fwrite_def put_entry_def)
  have fb: "file_bytes ?s1 (Inside f) = file_bytes s (Inside f)"
    by (simp add: file_bytes_def entry_at_def)
  show ?case
    unfolding step ih by (simp add: fwrite_fwrite fb)
qed


lemma load_loop_async_unsplit:
  assumes "\<forall>c \<in> set pre. c \<noteq> [] \<and> length c \<le> 4096"
    and "length (t @ SENTINEL @ junk) \<le> 4096"
    and "split_once SENTINEL (concat pre @ t) = None"
    and "inbound s = pre @ (t @ SENTINEL @ junk) # later"
  shows "load_loop_async (Inside f) s =
           Done (s\<lparr>inbound := later,
                    files := AList.update f (File (file_bytes s (Inside f) @ concat pre @ t)) (files s)\<rparr>)"
  using assms
proof (induction pre arbitrary: s)
  case Nil
  have ne: "t @ SENTINEL @ junk \<noteq> []"
    by (simp add: SENTINEL_def)
  have "recv_seg 4096 ((t @ SENTINEL @ junk) # later) = (t @ SENTINEL @ junk, later)"
    using ne Nil.prems(2) by (rule recv_seg_whole)
  then have r: "read 4096 s = (t @ SENTINEL @ junk, s\<lparr>inbound := later\<rparr>)"
    using Nil.prems(4) by (simp add: read_def del: recv_seg.simps)
  have sp: "split_once SENTINEL (t @ SENTINEL @ junk) = Some (t, junk)"
    using Nil.prems(3) by (simp add: sentinel_first)
  show ?case
    using r ne sp
    by (subst load_loop_async.simps) (simp add: fwrite_def file_bytes_def put_entry_def entry_at_def)
next
  case (Cons c pre)
  have c: "c \<noteq> []" "length c \<le> 4096"
    using Cons.prems(1) by simp_all
  let ?s1 = "s\<lparr>inbound := pre @ (t @ SENTINEL @ junk) # later\<rparr>"
  have "recv_seg 4096 (c # pre @ (t @ SENTINEL @ junk) # later)
          = (c, pre @ (t @ SENTINEL @ junk) # later)"
    using c by (rule recv_seg_whole)
  then have r: "read 4096 s = (c, ?s1)"
    using Cons.prems(4) by (simp add: read_def del: recv_seg.simps)
  have n1: "split_once SENTINEL c = None"
    using Cons.prems(3) split_once_None_mid [of SENTINEL "[]" c "concat pre @ t"] by simp
  have n2: "split_once SENTINEL (concat pre @ t) = None"
    using Cons.prems(3) split_once_None_mid [of SENTINEL c "concat pre @ t" "[]"] by simp
  have step: "load_loop_async (Inside f) s = load_loop_async (Inside f) (fwrite ?s1 (Inside f) c)"
    using r c n1 by (subst load_loop_async.simps) simp
  have ih: "load_loop_async (Inside f) (fwrite ?s1 (Inside f) c) =
      Done ((fwrite ?s1 (Inside f) c)\<lparr>inbound := later,
              files := AList.update f (File (file_bytes (fwrite ?s1 (Inside f) c) (Inside f) @ concat pre @ t))
                         (files (fwrite ?s1 (Inside f) c))\<rparr>)"
    using Cons.prems(1,2) n2 by (intro Cons.IH) (simp_all add: fwrite_def put_entry_def)
  have fb: "file_bytes ?s1 (Inside f) = file_bytes s (Inside f)"
    by (simp add: file_bytes_def entry_at_def)
  show ?case
    unfolding step ih by (simp add: fwrite_fwrite fb)
qed

text \<open>The connection after an upload that stored \<open>d\<close> under \<open>f\<close> and left the
  segments \<open>later\<close> unread.\<close>

definition stored :: "conn \<Rightarrow> string \<Rightarrow> bytes list \<Rightarrow> bytes \<Rightarrow> conn" where
  "stored s f later d =
     s\<lparr>inbound := later, sent := sent s @ [''READY'' @ [NL]],
       files := AList.update f (File d) (files s),
       log := log s @ [(INFO, ''['' @ addr s @ ''] Upload complete: '' @ f)]\<rparr>"

lemma stored_eq:
  "(open_wb (sendall s r) (Inside f))\<lparr>inbound := later,
       files := AList.update f (File (file_bytes (open_wb (sendall s r) (Inside f)) (Inside f) @ d))
                  (files (open_wb (sendall s r) (Inside f)))\<rparr>
   = s\<lparr>inbound := later, sent := sent s @ [r], files := AList.update f (File d) (files s)\<rparr>"
  by (simp add: open_wb_def put_entry_def entry_at_def sendall_def file_bytes_def update_conv')

text \<open>
  What both upload handlers do when no read cuts the sentinel: the stream arrives in
  reads of at most 4096 bytes, the last of which holds the end \<open>t\<close> of the content, the
  whole sentinel and whatever follows it, and the content \<open>concat pre @ t\<close> holds no
  sentinel. Then the content is what is stored, and what follows the sentinel in its
  read is dropped.
\<close>

lemma cmd_load_unsplit:
  assumes "\<forall>c \<in> set pre. c \<noteq> [] \<and> length c \<le> 4096"
    and "length (t @ SENTINEL @ junk) \<le> 4096"
    and "split_once SENTINEL (concat pre @ t) = None"
    and "inbound s = pre @ (t @ SENTINEL @ junk) # later"
    and "map_of (files s) f \<noteq> Some Dir"
    and "plain_name f"
  shows "cmd_load s f = Done (stored s f later (concat pre @ t))"
    and "cmd_load_async s f = Done (stored s f later (concat pre @ t))"
proof -
  define s0 where "s0 = sendall s (''READY'' @ [NL])"
  define s1 where "s1 = open_wb s0 (Inside f)"
  define s2 where "s2 = s\<lparr>inbound := later, sent := sent s @ [''READY'' @ [NL]],
                          files := AList.update f (File (concat pre @ t)) (files s)\<rparr>"
  have i: "inbound s1 = pre @ (t @ SENTINEL @ junk) # later"
    using assms(4) by (simp add: s1_def s0_def open_wb_def put_entry_def sendall_def)
  have nd: "entry_at s0 (Inside f) \<noteq> Some Dir"
    using assms(5) by (simp add: s0_def sendall_def entry_at_def)
  have lc: "locate s0 f = Some (Inside f)"
    using assms(6) by (rule locate_plain)
  have r: "s1\<lparr>inbound := later,
              files := AList.update f (File (file_bytes s1 (Inside f) @ concat pre @ t)) (files s1)\<rparr> = s2"
    unfolding s1_def s0_def s2_def by (rule stored_eq)
  have l: "load_loop (Inside f) [] s1 = Done s2" "load_loop_async (Inside f) s1 = Done s2"
    using load_loop_unsplit [OF assms(1-3) i, of f] load_loop_async_unsplit [OF assms(1-3) i, of f]
    by (simp_all only: r)
  define msg where "msg = ''Upload complete: '' @ f"
  have st: "info s2 msg = stored s f later (concat pre @ t)"
    by (simp add: s2_def stored_def info_def msg_def)
  have inner:
    "(case entry_at s0 (Inside f) of
        Some Dir \<Rightarrow> Raised (IsADirectoryError (path_join (storage_dir s0) f)) s0
      | _ \<Rightarrow> load_loop (Inside f) [] s1) = Done s2"
    "(case entry_at s0 (Inside f) of
        Some Dir \<Rightarrow> Raised (IsADirectoryError (path_join (storage_dir s0) f)) s0
      | _ \<Rightarrow> load_loop_async (Inside f) s1) = Done s2"
    using nd l by (auto split: option.splits entry.splits)
  have "cmd_load s f =
          (case (case entry_at s0 (Inside f) of
                   Some Dir \<Rightarrow> Raised (IsADirectoryError (path_join (storage_dir s0) f)) s0
                 | _ \<Rightarrow> load_loop (Inside f) [] s1) of
             Done s2 \<Rightarrow> Done (info s2 msg)
           | Raised e s2 \<Rightarrow>
               Raised (ErrorDuringUpload e) (error s2 (''Upload error: '' @ str_exn e))
           | Unmodelled \<Rightarrow> Unmodelled)"
    unfolding cmd_load_def Let_def by (simp only: lc [unfolded s0_def] option.case s0_def s1_def msg_def)
  then show "cmd_load s f = Done (stored s f later (concat pre @ t))"
    by (simp only: inner outcome.case st)
  have "cmd_load_async s f =
          (case (case entry_at s0 (Inside f) of
                   Some Dir \<Rightarrow> Raised (IsADirectoryError (path_join (storage_dir s0) f)) s0
                 | _ \<Rightarrow> load_loop_async (Inside f) s1) of
             Done s2 \<Rightarrow> Done (info s2 msg)
           | Raised e s2 \<Rightarrow>
               Raised (ErrorDuringUpload e) (error s2 (''Upload error: '' @ str_exn e))
           | Unmodelled \<Rightarrow> Unmodelled)"
    unfolding cmd_load_async_def Let_def by (simp only: lc [unfolded s0_def] option.case s0_def s1_def msg_def)
  then show "cmd_load_async s f = Done (stored s f later (concat pre @ t))"
    by (simp only: inner outcome.case st)
qed


text \<open>Uploading and then asking for the file, when no read cuts the sentinel: GET FILE
  answers with the length of the content and the content.\<close>

lemma upload_then_get_file_unsplit:
  assumes "\<forall>c \<in> set pre. c \<noteq> [] \<and> length c \<le> 4096"
    and "length (t @ SENTINEL @ junk) \<le> 4096"
    and "split_once SENTINEL (concat pre @ t) = None"
    and "inbound s = pre @ (t @ SENTINEL @ junk) # later"
    and "map_of (files s) f \<noteq> Some Dir"
    and "plain_name f"
    and "d = concat pre @ t"
    and "s1 = stored s f later d"
  shows "cmd_load s f = Done s1"
    and "cmd_get_file s1 f =
           Done (s1\<lparr>sent := sent s1 @ [encode (''READY '' @ str_nat (length d) @ [NL])]
                                    @ chunks d @ [SENTINEL],
                     log := log s1 @ [(INFO, ''['' @ addr s1 @ ''] File sent: '' @ f)]\<rparr>)"
    and "concat (chunks d) = d"
proof -
  show "cmd_load s f = Done s1"
    using cmd_load_unsplit(1) [OF assms(1-6)] assms(7,8) by simp
  have "map_of (files s1) f = Some (File d)"
    by (simp add: assms(8) stored_def update_conv')
  then show "cmd_get_file s1 f =
           Done (s1\<lparr>sent := sent s1 @ [encode (''READY '' @ str_nat (length d) @ [NL])]
                                    @ chunks d @ [SENTINEL],
                     log := log s1 @ [(INFO, ''['' @ addr s1 @ ''] File sent: '' @ f)]\<rparr>)"
    by (rule get_file_stored(1))
  show "concat (chunks d) = d"
    by (rule concat_chunks)
qed

text \<open>The scenario of the specification: the client uploads the seven bytes data123 as
  up.txt and the server, reading the three frames as they were sent, stores them; GET
  FILE returns them and GET FILES ALL lists the name.\<close>

lemma scenario_up_txt:
  "map_option files
     (reached (handle_client
                 (accepted [''LOAD up.txt '' @ [NL], ''data123'', ''<END>'' @ [NL]] [])))
     = Some [(''up.txt'', File ''data123'')]"
  "map_option sent
     (reached (handle_client
                 (accepted [''GET FILE up.txt'' @ [NL], ''GET FILES ALL'' @ [NL]]
                    [(''up.txt'', File ''data123'')])))
     = Some [''READY 7'' @ [NL], ''data123'', ''<END>'' @ [NL], ''up.txt'' @ [NL]]"
  by code_simp+

text \<open>Bytes without a sentinel, followed by the first three bytes of one, hold no
  sentinel.\<close>

lemma sentinel_not_completed:
  "split_once SENTINEL t = None \<Longrightarrow> split_once SENTINEL (t @ ''<EN'') = None"
proof (induction t)
  case Nil
  show ?case by (simp add: SENTINEL_def)
next
  case (Cons x t)
  have n: "take (length SENTINEL) (x # t) \<noteq> SENTINEL" and r: "split_once SENTINEL t = None"
    using Cons.prems by (auto split: if_splits option.splits)
  have "take (length SENTINEL) (x # t @ ''<EN'') \<noteq> SENTINEL"
    using n
    apply (simp add: SENTINEL_def NL_def)
    apply (cases t; simp)
    apply (rename_tac a1 t1, case_tac t1; simp)
    apply (rename_tac a2 t2, case_tac t2; simp)
    apply (rename_tac a3 t3, case_tac t3; simp)
    apply (rename_tac a4 t4, case_tac t4; simp)
    done
  with Cons.IH [OF r] show ?case by simp
qed

lemma load_loop_straddle:
  assumes "length d = 4093"
    and "split_once SENTINEL d = None"
    and "inbound s = [d @ SENTINEL]"
  shows "load_loop (Inside f) [] s =
           Raised (PeerDisconnected ''Connection lost during upload'')
             (s\<lparr>inbound := [],
                 files := AList.update f (File (file_bytes s (Inside f) @ d @ SENTINEL)) (files s)\<rparr>)"
proof -
  define p :: bytes where "p = ''<EN''"
  define q :: bytes where "q = ''D>'' @ [NL]"
  have pq: "SENTINEL = p @ q" "length p = 3" "q \<noteq> []" "length q = 3" "p \<noteq> []"
    by (simp_all add: p_def q_def SENTINEL_def)
  let ?s1 = "s\<lparr>inbound := [q]\<rparr>"
  let ?s2 = "fwrite ?s1 (Inside f) (d @ p)"
  let ?s3 = "fwrite (?s2\<lparr>inbound := []\<rparr>) (Inside f) q"
  have "recv_seg 4096 [d @ p @ q] = (d @ p, [q])"
    using assms(1) pq(2-5) by simp
  then have r1: "recv 4096 s = (d @ p, ?s1)"
    using assms(3) by (simp add: recv_def pq(1) del: recv_seg.simps)
  have n1: "split_once SENTINEL (d @ p) = None"
    unfolding p_def using assms(2) by (rule sentinel_not_completed)
  have l1: "load_loop (Inside f) [] s = load_loop (Inside f) [] ?s2"
    using r1 n1 pq(2-5) by (subst load_loop.simps) simp
  have "recv_seg 4096 [q] = (q, [])"
    using pq(2-5) by simp
  then have r2: "recv 4096 ?s2 = (q, ?s2\<lparr>inbound := []\<rparr>)"
    by (simp add: recv_def fwrite_def put_entry_def del: recv_seg.simps)
  have n2: "split_once SENTINEL q = None"
    by (simp add: q_def SENTINEL_def NL_def)
  have l2: "load_loop (Inside f) [] ?s2 = load_loop (Inside f) [] ?s3"
    using r2 n2 pq(2-5) by (subst load_loop.simps) simp
  have r3: "recv 4096 ?s3 = ([], ?s3)"
    by (simp add: recv_def fwrite_def put_entry_def)
  have l3: "load_loop (Inside f) [] ?s3 = Raised (PeerDisconnected ''Connection lost during upload'') ?s3"
    using r3 by (subst load_loop.simps) simp
  have e: "?s3 = s\<lparr>inbound := [],
                 files := AList.update f (File (file_bytes s (Inside f) @ d @ SENTINEL)) (files s)\<rparr>"
    by (simp add: fwrite_def put_entry_def entry_at_def file_bytes_def update_conv' pq(1))
  have "load_loop (Inside f) [] s = Raised (PeerDisconnected ''Connection lost during upload'') ?s3"
    by (simp only: l1 l2 l3)
  then show ?thesis
    by (simp only: e)
qed

lemma load_loop_async_straddle:
  assumes "length d = 4093"
    and "split_once SENTINEL d = None"
    and "inbound s = [d @ SENTINEL]"
  shows "load_loop_async (Inside f) s =
           Raised (PeerDisconnected ''Connection lost during upload'')
             (s\<lparr>inbound := [],
                 files := AList.update f (File (file_bytes s (Inside f) @ d @ SENTINEL)) (files s)\<rparr>)"
proof -
  define p :: bytes where "p = ''<EN''"
  define q :: bytes where "q = ''D>'' @ [NL]"
  have pq: "SENTINEL = p @ q" "length p = 3" "q \<noteq> []" "length q = 3" "p \<noteq> []"
    by (simp_all add: p_def q_def SENTINEL_def)
  let ?s1 = "s\<lparr>inbound := [q]\<rparr>"
  let ?s2 = "fwrite ?s1 (Inside f) (d @ p)"
  let ?s3 = "fwrite (?s2\<lparr>inbound := []\<rparr>) (Inside f) q"
  have "recv_seg 4096 [d @ p @ q] = (d @ p, [q])"
    using assms(1) pq(2-5) by simp
  then have r1: "read 4096 s = (d @ p, ?s1)"
    using assms(3) by (simp add: read_def pq(1) del: recv_seg.simps)
  have n1: "split_once SENTINEL (d @ p) = None"
    unfolding p_def using assms(2) by (rule sentinel_not_completed)
  have l1: "load_loop_async (Inside f) s = load_loop_async (Inside f) ?s2"
    using r1 n1 pq(2-5) by (subst load_loop_async.simps) simp
  have "recv_seg 4096 [q] = (q, [])"
    using pq(2-5) by simp
  then have r2: "read 4096 ?s2 = (q, ?s2\<lparr>inbound := []\<rparr>)"
    by (simp add: read_def fwrite_def put_entry_def del: recv_seg.simps)
  have n2: "split_once SENTINEL q = None"
    by (simp add: q_def SENTINEL_def NL_def)
  have l2: "load_loop_async (Inside f) ?s2 = load_loop_async (Inside f) ?s3"
    using r2 n2 pq(2-5) by (subst load_loop_async.simps) simp
  have r3: "read 4096 ?s3 = ([], ?s3)"
    by (simp add: read_def fwrite_def put_entry_def)
  have l3: "load_loop_async (Inside f) ?s3 = Raised (PeerDisconnected ''Connection lost during upload'') ?s3"
    using r3 by (subst load_loop_async.simps) simp
  have e: "?s3 = s\<lparr>inbound := [],
                 files := AList.update f (File (file_bytes s (Inside f) @ d @ SENTINEL)) (files s)\<rparr>"
    by (simp add: fwrite_def put_entry_def entry_at_def file_bytes_def update_conv' pq(1))
  have "load_loop_async (Inside f) s = Raised (PeerDisconnected ''Connection lost during upload'') ?s3"
    by (simp only: l1 l2 l3)
  then show ?thesis
    by (simp only: e)
qed


text \<open>The connection after an upload that stored \<open>d\<close> under \<open>f\<close> and then met the end
  of the stream.\<close>

definition cut_off :: "conn \<Rightarrow> string \<Rightarrow> bytes \<Rightarrow> conn" where
  "cut_off s f d =
     s\<lparr>inbound := [], sent := sent s @ [''READY'' @ [NL]],
       files := AList.update f (File d) (files s),
       log := log s @ [(ERROR, ''['' @ addr s @ ''] Upload error: Connection lost during upload'')]\<rparr>"

lemma cut_off_eq:
  "error ((open_wb (sendall s r) (Inside f))\<lparr>inbound := [],
       files := AList.update f (File (file_bytes (open_wb (sendall s r) (Inside f)) (Inside f) @ d))
                  (files (open_wb (sendall s r) (Inside f)))\<rparr>) m
   = s\<lparr>inbound := [], sent := sent s @ [r], files := AList.update f (File d) (files s),
       log := log s @ [(ERROR, ''['' @ addr s @ ''] '' @ m)]\<rparr>"
  by (simp add: open_wb_def put_entry_def entry_at_def sendall_def file_bytes_def update_conv' error_def)

text \<open>
  A file of 4093 bytes without a sentinel, sent by the client as one chunk and followed
  by the sentinel: when both have arrived before the server reads, the read of 4096
  bytes ends in the middle of the sentinel. Both handlers store the file with the
  sentinel at its end and raise when the client closes.
\<close>

lemma cmd_load_straddle:
  assumes "length d = 4093"
    and "split_once SENTINEL d = None"
    and "inbound s = [d @ SENTINEL]"
    and "map_of (files s) f \<noteq> Some Dir"
    and "plain_name f"
  shows "cmd_load s f =
           Raised (ErrorDuringUpload (PeerDisconnected ''Connection lost during upload''))
             (cut_off s f (d @ SENTINEL))"
    and "cmd_load_async s f =
           Raised (ErrorDuringUpload (PeerDisconnected ''Connection lost during upload''))
             (cut_off s f (d @ SENTINEL))"
proof -
  define s0 where "s0 = sendall s (''READY'' @ [NL])"
  define s1 where "s1 = open_wb s0 (Inside f)"
  define s2 where "s2 = s1\<lparr>inbound := [],
      files := AList.update f (File (file_bytes s1 (Inside f) @ d @ SENTINEL)) (files s1)\<rparr>"
  define e where "e = PeerDisconnected ''Connection lost during upload''"
  have i: "inbound s1 = [d @ SENTINEL]"
    using assms(3) by (simp add: s1_def s0_def open_wb_def put_entry_def sendall_def)
  have nd: "entry_at s0 (Inside f) \<noteq> Some Dir"
    using assms(4) by (simp add: s0_def sendall_def entry_at_def)
  have lc: "locate s0 f = Some (Inside f)"
    using assms(5) by (rule locate_plain)
  have l: "load_loop (Inside f) [] s1 = Raised e s2" "load_loop_async (Inside f) s1 = Raised e s2"
    using load_loop_straddle [OF assms(1,2) i, of f] load_loop_async_straddle [OF assms(1,2) i, of f]
    by (simp_all only: s2_def e_def)
  have st: "error s2 (''Upload error: '' @ str_exn e) = cut_off s f (d @ SENTINEL)"
    unfolding s2_def s1_def s0_def by (simp add: cut_off_eq e_def) (simp add: cut_off_def)
  have inner:
    "(case entry_at s0 (Inside f) of
        Some Dir \<Rightarrow> Raised (IsADirectoryError (path_join (storage_dir s0) f)) s0
      | _ \<Rightarrow> load_loop (Inside f) [] s1) = Raised e s2"
    "(case entry_at s0 (Inside f) of
        Some Dir \<Rightarrow> Raised (IsADirectoryError (path_join (storage_dir s0) f)) s0
      | _ \<Rightarrow> load_loop_async (Inside f) s1) = Raised e s2"
    using nd l by (auto split: option.splits entry.splits)
  have "cmd_load s f =
          (case (case entry_at s0 (Inside f) of
                   Some Dir \<Rightarrow> Raised (IsADirectoryError (path_join (storage_dir s0) f)) s0
                 | _ \<Rightarrow> load_loop (Inside f) [] s1) of
             Done s2 \<Rightarrow> Done (info s2 (''Upload complete: '' @ f))
           | Raised e s2 \<Rightarrow>
               Raised (ErrorDuringUpload e) (error s2 (''Upload error: '' @ str_exn e))
           | Unmodelled \<Rightarrow> Unmodelled)"
    unfolding cmd_load_def Let_def by (simp only: lc [unfolded s0_def] option.case s0_def s1_def)
  then show "cmd_load s f =
           Raised (ErrorDuringUpload (PeerDisconnected ''Connection lost during upload''))
             (cut_off s f (d @ SENTINEL))"
    by (simp only: inner outcome.case st) (simp only: e_def)
  have "cmd_load_async s f =
          (case (case entry_at s0 (Inside f) of
                   Some Dir \<Rightarrow> Raised (IsADirectoryError (path_join (storage_dir s0) f)) s0
                 | _ \<Rightarrow> load_loop_async (Inside f) s1) of
             Done s2 \<Rightarrow> Done (info s2 (''Upload complete: '' @ f))
           | Raised e s2 \<Rightarrow>
               Raised (ErrorDuringUpload e) (error s2 (''Upload error: '' @ str_exn e))
           | Unmodelled \<Rightarrow> Unmodelled)"
    unfolding cmd_load_async_def Let_def by (simp only: lc [unfolded s0_def] option.case s0_def s1_def)
  then show "cmd_load_async s f =
           Raised (ErrorDuringUpload (PeerDisconnected ''Connection lost during upload''))
             (cut_off s f (d @ SENTINEL))"
    by (simp only: inner outcome.case st) (simp only: e_def)
qed


lemma no_sentinel_without_start:
  "CHR ''<'' \<notin> set t \<Longrightarrow> split_once SENTINEL t = None"
proof (induction t)
  case Nil
  show ?case by (simp add: SENTINEL_def)
next
  case (Cons x t)
  then have "x \<noteq> CHR ''<''" by auto
  then have "take (length SENTINEL) (x # t) \<noteq> SENTINEL"
    by (auto simp: SENTINEL_def)
  with Cons show ?case by simp
qed

lemma cmd_load_straddle_example:
  "cmd_load (accepted [replicate 4093 (CHR ''x'') @ SENTINEL] []) ''big'' =
     Raised (ErrorDuringUpload (PeerDisconnected ''Connection lost during upload''))
       (cut_off (accepted [replicate 4093 (CHR ''x'') @ SENTINEL] []) ''big''
          (replicate 4093 (CHR ''x'') @ SENTINEL))"
  by (rule cmd_load_straddle(1))
    (simp_all add: no_sentinel_without_start accepted_def plain_name_def)


lemma send_chunks_eq:
  "send_chunks d cb c =
     c\<lparr>to_server := to_server c @ chunks d,
       progress := progress c @ (if cb then map length (chunks d) else [])\<rparr>"
proof (induction d cb c rule: send_chunks.induct)
  case (1 rest cb c)
  show ?case
  proof (cases "rest = []")
    case True
    then show ?thesis by (simp add: send_chunks.simps chunks.simps)
  next
    case False
    then have ne: "take 4096 rest \<noteq> []" by simp
    have ch: "chunks rest = take 4096 rest # chunks (drop 4096 rest)"
      using False by (subst chunks.simps) simp
    show ?thesis
      using ne 1 [OF refl ne refl refl]
      by (cases cb) (subst send_chunks.simps, simp add: Let_def ch client_sendall_def)+
  qed
qed

text \<open>What \<open>upload\<close> sends for a local file when the server answers READY in one
  read: the command line, the file in chunks of at most 4096 bytes, the sentinel.\<close>

lemma upload_frames:
  assumes "client_socket c"
    and "map_of (local_files c) path = Some (File d)"
    and "from_server c = (''READY'' @ [NL]) # rest"
  shows "map_option to_server (reached (upload zip_bytes c path False cb))
           = Some (to_server c @ [encode (''LOAD '' @ basename path @ '' '' @ [NL])]
                   @ chunks d @ [SENTINEL])"
    and "concat (chunks d @ [SENTINEL]) = d @ SENTINEL"
proof -
  have st: "strip (''READY'' @ [NL]) = ''READY''"
    by (simp add: strip_def is_space_def NL_def)
  have dc: "decode (''READY'' @ [NL]) = Some (''READY'' @ [NL])"
    by (simp add: decode_def is_ascii_def NL_def)
  have rc: "client_recv 1024 (client_sendall c x) =
              (''READY'' @ [NL], (client_sendall c x)\<lparr>from_server := rest\<rparr>)" for x
    using assms(3) by (simp add: client_recv_def client_sendall_def)
  have lb: "local_bytes ((client_sendall c x)\<lparr>from_server := rest\<rparr>) path = d" for x
    using assms(2) by (simp add: local_bytes_def client_sendall_def)
  have lf: "local_isfile c path"
    using assms(2) by (simp add: local_isfile_def)
  show "map_option to_server (reached (upload zip_bytes c path False cb))
           = Some (to_server c @ [encode (''LOAD '' @ basename path @ '' '' @ [NL])]
                   @ chunks d @ [SENTINEL])"
    using assms(1) lf
    by (simp add: upload_def Let_def rc dc st lb send_chunks_eq del: append.simps)
       (simp add: client_sendall_def client_info_def)
  show "concat (chunks d @ [SENTINEL]) = d @ SENTINEL"
    by (simp add: concat_chunks)
qed

text \<open>The thread dispatcher returns whatever its handler does: an exception of the
  handler becomes an error frame, and the loop that called the dispatcher goes on.\<close>

lemma dispatch_command_returns: "dispatch_command s ln \<noteq> Raised e s1"
  by (simp add: dispatch_command_def Let_def split: list.splits outcome.splits)

lemma dispatch_command_catches:
  assumes "split ln = p # ps"
    and "dispatch_try (info s (''Command received: '' @ ln)) (p # ps) (upper p)
           = Raised (ErrorDuringUpload e) s1"
  shows "dispatch_command s ln =
           Done (sendall s1 (encode (''ERROR ErrorDuringUpload '' @ str_exn e @ [NL])))"
  using assms by (simp add: dispatch_command_def Let_def)


text \<open>An archive function for the examples, none of which compresses.\<close>

definition zb :: "string \<Rightarrow> bytes \<Rightarrow> bytes" where
  "zb name d = d"

text \<open>A connected client that holds the one-byte file up.txt and is answered READY.\<close>

definition client0 :: "bytes list \<Rightarrow> client" where
  "client0 reply = \<lparr>client_socket = True, from_server = reply, to_server = [],
                     local_files = [(''up.txt'', File ''a'')], client_log = [], progress = []\<rparr>"

text \<open>
  C6. The sentinel is looked for in one read at a time: \<open>buffer\<close> is emptied after
  every read that does not hold the whole sentinel. For the stream \<open>ab<END>\<newline>cd\<close>
  that arrives as \<open>ab<EN\<close> and \<open>D>\<newline>cd\<close>, the first occurrence of the sentinel is not
  seen: both handlers store the whole stream, sentinel included, and raise
  \<open>ErrorDuringUpload\<close> when the stream ends. The claim's answer is the file \<open>ab\<close> and no
  error.
\<close>

theorem cmd_load_split_sentinel:
  "split_once SENTINEL (concat [''ab<EN'', ''D>'' @ [NL] @ ''cd'']) = Some (''ab'', ''cd'')
   \<and> (case cmd_load (accepted [''ab<EN'', ''D>'' @ [NL] @ ''cd''] []) ''f'' of
         Raised e s \<Rightarrow>
           e = ErrorDuringUpload (PeerDisconnected ''Connection lost during upload'')
           \<and> files s = [(''f'', File (''ab<END>'' @ [NL] @ ''cd''))]
       | _ \<Rightarrow> False)
   \<and> (case cmd_load_async (accepted [''ab<EN'', ''D>'' @ [NL] @ ''cd''] []) ''f'' of
         Raised e s \<Rightarrow>
           e = ErrorDuringUpload (PeerDisconnected ''Connection lost during upload'')
           \<and> files s = [(''f'', File (''ab<END>'' @ [NL] @ ''cd''))]
       | _ \<Rightarrow> False)"
  by code_simp

text \<open>
  C1. The client sends the file up.txt, one byte \<open>a\<close>, as the frames \<open>LOAD up.txt\<close>,
  \<open>a\<close> and the sentinel. When the bytes after the command line reach the server as
  \<open>a<EN\<close> and \<open>D>\<newline>\<close>, the server stores \<open>a<END>\<newline>\<close> under up.txt, in both
  runtimes, and GET FILE up.txt then answers with these seven bytes: not the byte
  uploaded, though it holds no sentinel. (The same happens to every file of 4093 bytes
  whose chunk and sentinel are read together, \<open>cmd_load_straddle\<close>; the content comes
  back whenever no read cuts the sentinel, \<open>upload_then_get_file_unsplit\<close>.)
\<close>

theorem upload_download_split_sentinel:
  "split_once SENTINEL ''a'' = None
   \<and> map_option to_server (reached (upload zb (client0 [''READY'' @ [NL]]) ''up.txt'' False False))
       = Some [''LOAD up.txt '' @ [NL], ''a'', ''<END>'' @ [NL]]
   \<and> concat [''LOAD up.txt '' @ [NL], ''a'', ''<END>'' @ [NL]]
       = concat [''LOAD up.txt '' @ [NL], ''a<EN'', ''D>'' @ [NL]]
   \<and> map_option files
         (reached (handle_client (accepted [''LOAD up.txt '' @ [NL], ''a<EN'', ''D>'' @ [NL]] [])))
       = Some [(''up.txt'', File (''a<END>'' @ [NL]))]
   \<and> map_option files
         (reached (handle_client_async
                     (accepted [''LOAD up.txt '' @ [NL], ''a<EN'', ''D>'' @ [NL]] [])))
       = Some [(''up.txt'', File (''a<END>'' @ [NL]))]
   \<and> map_option sent
         (reached (handle_client (accepted [''GET FILE up.txt'' @ [NL]]
                                            [(''up.txt'', File (''a<END>'' @ [NL]))])))
       = Some [''READY 7'' @ [NL], ''a<END>'' @ [NL], ''<END>'' @ [NL]]"
  by code_simp

text \<open>
  C3. In the thread runtime the bytes that were read together with the LOAD line stay
  in the buffer of \<open>_handle_client\<close>; the upload handler reads the socket and never sees
  them. When \<open>LOAD f\<close> and \<open>GET FILE x\<close> arrive in one read and the sentinel in the next,
  the file f is stored empty and GET FILE x is dispatched as a command and answered. The
  cooperative runtime, whose reader keeps the bytes, stores the line as the content of f.
\<close>

theorem threaded_line_after_load_dispatched:
  "map_option sent
     (reached (handle_client
                 (accepted [''LOAD f'' @ [NL] @ ''GET FILE x'' @ [NL], ''<END>'' @ [NL]] [])))
     = Some [''READY'' @ [NL], ''ERROR FileNotFound x'' @ [NL]]
   \<and> map_option files
     (reached (handle_client
                 (accepted [''LOAD f'' @ [NL] @ ''GET FILE x'' @ [NL], ''<END>'' @ [NL]] [])))
     = Some [(''f'', File [])]
   \<and> map_option sent
     (reached (handle_client_async
                 (accepted [''LOAD f'' @ [NL] @ ''GET FILE x'' @ [NL], ''<END>'' @ [NL]] [])))
     = Some [''READY'' @ [NL]]
   \<and> map_option files
     (reached (handle_client_async
                 (accepted [''LOAD f'' @ [NL] @ ''GET FILE x'' @ [NL], ''<END>'' @ [NL]] [])))
     = Some [(''f'', File (''GET FILE x'' @ [NL]))]"
  by code_simp

text \<open>
  C2. \<open>_dispatch_command_async\<close> has no \<open>except\<close> clause. With a directory sub in the
  storage, \<open>LOAD sub\<close> makes the upload handler raise \<open>ErrorDuringUpload\<close>; the thread
  runtime answers with the error frame and goes on to answer the next line, the
  cooperative runtime sends no error frame and closes the connection with the next line
  unread.
\<close>

theorem async_handler_error_closes:
  "(case cmd_load_async (accepted [''GET FILES ALL'' @ [NL]] [(''sub'', Dir)]) ''sub'' of
      Raised e s \<Rightarrow> e = ErrorDuringUpload (IsADirectoryError ''database/sub'')
    | _ \<Rightarrow> False)
   \<and> map_option (\<lambda>s. (sent s, inbound s, closed s))
       (reached (handle_client_async
                   (accepted [''LOAD sub'' @ [NL], ''GET FILES ALL'' @ [NL]] [(''sub'', Dir)])))
     = Some ([''READY'' @ [NL]], [''GET FILES ALL'' @ [NL]], True)
   \<and> map_option (\<lambda>s. (sent s, inbound s, closed s))
       (reached (handle_client
                   (accepted [''LOAD sub'' @ [NL], ''GET FILES ALL'' @ [NL]] [(''sub'', Dir)])))
     = Some ([''READY'' @ [NL],
              ''ERROR ErrorDuringUpload [Errno 21] Is a directory: '' @ [CHR 0x27]
                @ ''database/sub'' @ [CHR 0x27] @ [NL],
              ''sub'' @ [NL]], [], True)"
  by code_simp

text \<open>
  C9. When the answer to the LOAD line is not READY (the server has closed the
  connection, or it answers with an error line), \<open>upload\<close> logs an error and returns as
  it does after a complete upload: no exception reaches the caller. No byte of the file
  is sent.
\<close>

theorem upload_not_ready_returns:
  "upload zb (client0 []) ''up.txt'' False False
     = Done ((client0 [])\<lparr>to_server := [''LOAD up.txt '' @ [NL]],
                client_log := [(ERROR, ''Server not ready for upload: '')]\<rparr>)
   \<and> upload zb (client0 [''ERROR Unknown command'' @ [NL]]) ''up.txt'' False False
     = Done ((client0 [])\<lparr>to_server := [''LOAD up.txt '' @ [NL]],
                client_log := [(ERROR, ''Server not ready for upload: ERROR Unknown command'')]\<rparr>)
   \<and> upload zb (client0 [''READY'' @ [NL]]) ''up.txt'' False False
     = Done ((client0 [])\<lparr>to_server := [''LOAD up.txt '' @ [NL], ''a'', ''<END>'' @ [NL]],
                client_log := [(INFO, ''Upload of up.txt complete.'')]\<rparr>)"
  by code_simp

text \<open>The verb of a line: its first token in upper case, empty for a line without
  tokens.\<close>

definition verb :: "string \<Rightarrow> string" where
  "verb ln = (case split ln of [] \<Rightarrow> [] | p # ps \<Rightarrow> upper p)"

text \<open>
  What the two dispatchers do with a line whose verb is not LOAD and that is not a GET
  line of three or more tokens, and what the thread dispatcher does with a GET line
  whose subcommand it does not know.
\<close>

lemma dispatch_unknown_lines:
  "(verb ln \<noteq> ''LOAD'' \<and> \<not> (verb ln = ''GET'' \<and> 3 \<le> length (split ln)) \<longrightarrow>
      dispatch_command_async s ln = Done (sendall s (''ERROR Unknown command'' @ [NL]))
      \<and> dispatch_command s ln =
          (if split ln = [] then Done (info s (''Command received: '' @ ln))
           else Done (sendall (info s (''Command received: '' @ ln))
                        (''ERROR Unknown command'' @ [NL]))))
   \<and> (verb ln = ''GET'' \<and> 3 \<le> length (split ln)
       \<and> upper (split ln ! 1) \<noteq> ''FILE'' \<and> upper (split ln ! 1) \<noteq> ''FILES'' \<longrightarrow>
      dispatch_command s ln =
        Done (sendall (info s (''Command received: '' @ ln))
                (''ERROR Unknown GET subcommand'' @ [NL])))"
proof (cases "split ln")
  case Nil
  then show ?thesis
    by (simp add: verb_def dispatch_command_def dispatch_command_async_def)
next
  case (Cons p ps)
  then show ?thesis
    by (simp add: verb_def dispatch_command_def dispatch_command_async_def dispatch_try_def
        Let_def)
qed

text \<open>
  C7. Three kinds of line that are no well-formed LOAD or GET command get no
  unknown-command frame. The cooperative dispatcher has no branch for a GET line with an
  unknown subcommand: \<open>GET FOO x\<close> gets no reply at all, where the thread dispatcher
  answers \<open>ERROR Unknown GET subcommand\<close>. \<open>LOAD\<close> without a name fails on the missing
  token: the thread runtime answers \<open>ERROR list index out of range\<close>, the cooperative
  runtime sends nothing and closes the connection with the next line unread. A blank
  line gets no reply in the thread runtime, and \<open>ERROR Unknown command\<close> in the
  cooperative one.
\<close>

theorem unknown_lines_without_error_frame:
  "dispatch_command_async conn0 ''GET FOO x'' = Done conn0
   \<and> map_option sent (reached (dispatch_command conn0 ''GET FOO x''))
       = Some [''ERROR Unknown GET subcommand'' @ [NL]]
   \<and> map_option (\<lambda>s. (sent s, inbound s, closed s))
         (reached (handle_client_async
                     (accepted [''GET FOO x'' @ [NL], ''PUT x'' @ [NL]] [])))
       = Some ([''ERROR Unknown command'' @ [NL]], [], True)
   \<and> map_option (\<lambda>s. (sent s, inbound s, closed s))
         (reached (handle_client_async (accepted [''LOAD'' @ [NL], ''PUT x'' @ [NL]] [])))
       = Some ([], [''PUT x'' @ [NL]], True)
   \<and> map_option (\<lambda>s. (sent s, inbound s, closed s))
         (reached (handle_client (accepted [''LOAD'' @ [NL], ''PUT x'' @ [NL]] [])))
       = Some ([''ERROR list index out of range'' @ [NL], ''ERROR Unknown command'' @ [NL]],
               [], True)
   \<and> map_option sent (reached (handle_client (accepted ['' '' @ [NL]] []))) = Some []
   \<and> map_option sent (reached (handle_client_async (accepted ['' '' @ [NL]] [])))
       = Some [''ERROR Unknown command'' @ [NL]]"
  by code_simp

end
